theory Spec2Isabelle
  imports Main "HOL-Library.Word"
begin

text \<open>
  The streaming client (\<^verbatim>\<open>OpenLLMClient.inferenceStream\<close>), the model registry
  (\<^verbatim>\<open>ModelRegistryImpl\<close>) and the chat router of the OpenLLM TypeScript package, as
  functions over explicit state: the local variables of the read loop, the trace of the
  calls made to the caller's callbacks, the timer, and the behaviour of the network.
\<close>

section \<open>JavaScript strings and numbers\<close>

text \<open>
  A JavaScript string is a sequence of UTF-16 code units; the bytes read from the
  response body are octets. JavaScript numbers are restricted to integers here
  (context sizes, counts, status codes, milliseconds).
\<close>

type_synonym jsstring = "16 word list"

type_synonym byte = "8 word"

type_synonym number = int

text \<open>
  Where a claim depends on how a number compares, the number is an integer or
  \<^verbatim>\<open>NaN\<close>: \<^verbatim>\<open>NaN\<close> is falsy, as 0 is, and every comparison with it is false.
\<close>

datatype jsnumber = Num int | NaN

fun num_truthy :: "jsnumber \<Rightarrow> bool" where
  "num_truthy (Num x) = (x \<noteq> 0)"
| "num_truthy NaN = False"

fun num_lt :: "jsnumber \<Rightarrow> jsnumber \<Rightarrow> bool" where
  "num_lt (Num x) (Num y) = (x < y)"
| "num_lt a b = False"

fun num_ge :: "jsnumber \<Rightarrow> jsnumber \<Rightarrow> bool" where
  "num_ge (Num x) (Num y) = (x \<ge> y)"
| "num_ge a b = False"

definition js :: "string \<Rightarrow> jsstring" where
  "js s = map (\<lambda>c. word_of_nat (of_char c)) s"

definition newline :: "16 word" where
  "newline = 0x0A"

definition apostrophe :: "16 word" where
  "apostrophe = 0x27"

text \<open>
  \<^verbatim>\<open>String.prototype.trim\<close> removes WhiteSpace and LineTerminator code points from
  both ends: TAB, VT, FF, SP, NBSP, ZWNBSP, the category Zs, LF, CR, LS and PS.
\<close>

definition is_ws :: "16 word \<Rightarrow> bool" where
  "is_ws c \<longleftrightarrow>
     c \<in> {0x09, 0x0A, 0x0B, 0x0C, 0x0D, 0x20, 0xA0, 0x1680, 0x2028, 0x2029,
          0x202F, 0x205F, 0x3000, 0xFEFF}
     \<or> (0x2000 \<le> c \<and> c \<le> 0x200A)"

definition trim :: "jsstring \<Rightarrow> jsstring" where
  "trim s = rev (dropWhile is_ws (rev (dropWhile is_ws s)))"

definition startsWith :: "jsstring \<Rightarrow> jsstring \<Rightarrow> bool" where
  "startsWith s p \<longleftrightarrow> take (length p) s = p"

text \<open>\<^verbatim>\<open>s.slice(n)\<close> for a non-negative \<open>n\<close>.\<close>

definition slice :: "nat \<Rightarrow> jsstring \<Rightarrow> jsstring" where
  "slice n s = drop n s"

text \<open>
  \<^verbatim>\<open>s.split("\n")\<close>: the pieces between line feeds, in order. The result is never
  empty: a string without a line feed is its own single piece, and a string ending in
  a line feed has the empty string as its last piece.
\<close>

fun split_nl :: "jsstring \<Rightarrow> jsstring list" where
  "split_nl [] = [[]]"
| "split_nl (c # cs) =
     (if c = newline then [] # split_nl cs
      else (case split_nl cs of
              [] \<Rightarrow> [[c]]
            | l # ls \<Rightarrow> (c # l) # ls))"

text \<open>Decimal rendering of a non-negative integer, as a template literal prints it.\<close>

fun show_nat :: "nat \<Rightarrow> jsstring" where
  "show_nat n =
     (if n < 10 then [word_of_nat (48 + n)]
      else show_nat (n div 10) @ [word_of_nat (48 + n mod 10)])"

declare show_nat.simps [simp del]

definition show_int :: "int \<Rightarrow> jsstring" where
  "show_int i = (if i < 0 then js ''-'' @ show_nat (nat (- i)) else show_nat (nat i))"

section \<open>Errors and thrown values\<close>

text \<open>
  An \<^verbatim>\<open>Error\<close> object carries a name and a message; the errors built by
  \<^verbatim>\<open>createError\<close> also carry a code and the HTTP status. JavaScript can throw any
  value: \<open>NonError\<close> stands for a thrown value that is not an instance of
  \<^verbatim>\<open>Error\<close>.
\<close>

datatype js_error =
  JsError (name: jsstring) (message: jsstring) (code: "jsstring option") (statusCode: "number option")

datatype js_thrown = ErrorObj js_error | NonError

text \<open>\<^verbatim>\<open>new Error(msg)\<close>\<close>

definition new_Error :: "jsstring \<Rightarrow> js_error" where
  "new_Error msg = JsError (js ''Error'') msg None None"

text \<open>
  The regular expression \<^verbatim>\<open>/Model '([^']+)'/\<close> matches when, at some position, the
  text \<^verbatim>\<open>Model '\<close> is followed by one or more characters other than an apostrophe
  and then an apostrophe.
\<close>

definition match_here :: "jsstring \<Rightarrow> bool" where
  "match_here s \<longleftrightarrow>
     startsWith s (js ''Model '' @ [apostrophe]) \<and>
     takeWhile (\<lambda>c. c \<noteq> apostrophe) (drop 7 s) \<noteq> [] \<and>
     dropWhile (\<lambda>c. c \<noteq> apostrophe) (drop 7 s) \<noteq> []"

fun match_model :: "jsstring \<Rightarrow> bool" where
  "match_model [] = False"
| "match_model (c # cs) = (match_here (c # cs) \<or> match_model cs)"

definition createError :: "number \<Rightarrow> jsstring \<Rightarrow> js_error" where
  "createError status msg =
     (if status = 404 \<and> match_model msg then
        JsError (js ''ModelNotFoundError'') msg (Some (js ''MODEL_NOT_FOUND'')) (Some status)
      else if status = 412 \<and> match_model msg then
        JsError (js ''ModelNotLoadedError'') msg (Some (js ''MODEL_NOT_LOADED'')) (Some status)
      else
        JsError (js ''OpenLLMError'') msg (Some (js ''API_ERROR'')) (Some status))"

section \<open>JSON values\<close>

text \<open>
  What \<^verbatim>\<open>JSON.parse\<close> returns. Numbers are integers that print in decimal; an object
  is its list of members in source order, where a later member of the same name wins.
\<close>

datatype json =
  JNull
| JBool bool
| JNum int
| JStr jsstring
| JArr "json list"
| JObj "(jsstring \<times> json) list"

text \<open>
  \<^verbatim>\<open>v.k\<close> on a value other than \<^verbatim>\<open>null\<close>, for the names \<^verbatim>\<open>token\<close> and
  \<^verbatim>\<open>complete\<close>, which no prototype defines: the member of an object, and
  \<^verbatim>\<open>undefined\<close> (\<open>None\<close>) otherwise.
\<close>

fun get_prop :: "json \<Rightarrow> jsstring \<Rightarrow> json option" where
  "get_prop (JObj kvs) k = map_of (rev kvs) k"
| "get_prop v k = None"

fun join_comma :: "jsstring list \<Rightarrow> jsstring" where
  "join_comma [] = []"
| "join_comma [x] = x"
| "join_comma (x # y # ys) = x @ js '','' @ join_comma (y # ys)"

text \<open>
  The string a value becomes when it is appended to a string; \<open>None\<close> when the
  conversion raises a \<^verbatim>\<open>TypeError\<close>. An array is the join of its elements, with
  \<^verbatim>\<open>null\<close> elements empty; an object is \<^verbatim>\<open>[object Object]\<close>, unless it has a member
  \<^verbatim>\<open>toString\<close>, which shadows the inherited method and cannot be called.
\<close>

fun to_string :: "json \<Rightarrow> jsstring option" where
  "to_string JNull = Some (js ''null'')"
| "to_string (JBool b) = Some (if b then js ''true'' else js ''false'')"
| "to_string (JNum i) = Some (show_int i)"
| "to_string (JStr s) = Some s"
| "to_string (JArr xs) =
     map_option join_comma
       (those (map (\<lambda>x. if x = JNull then Some [] else to_string x) xs))"
| "to_string (JObj kvs) =
     (if js ''toString'' \<in> fst ` set kvs then None else Some (js ''[object Object]''))"

fun truthy :: "json \<Rightarrow> bool" where
  "truthy JNull = False"
| "truthy (JBool b) = b"
| "truthy (JNum i) = (i \<noteq> 0)"
| "truthy (JStr s) = (s \<noteq> [])"
| "truthy v = True"

text \<open>
  \<^verbatim>\<open>accumulatedText += token.token\<close> appends \<open>fragment v\<close>; it raises, before anything
  is assigned, when the value is \<^verbatim>\<open>null\<close> or the conversion does. \<^verbatim>\<open>token.complete\<close>
  is tested for truthiness.
\<close>

definition fragment :: "json \<Rightarrow> jsstring option" where
  "fragment v =
     (if v = JNull then None
      else (case get_prop v (js ''token'') of
              None \<Rightarrow> Some (js ''undefined'')
            | Some x \<Rightarrow> to_string x))"

definition fragment_text :: "json \<Rightarrow> jsstring" where
  "fragment_text v = (case fragment v of None \<Rightarrow> [] | Some s \<Rightarrow> s)"

definition flagged :: "json \<Rightarrow> bool" where
  "flagged v = (case get_prop v (js ''complete'') of None \<Rightarrow> False | Some x \<Rightarrow> truthy x)"

section \<open>Streaming inference: data\<close>

record InferenceRequest =
  model_id :: jsstring
  prompt :: jsstring
  max_tokens :: "number option"
  temperature :: "number option"

record InferenceResponse =
  response_model_id :: jsstring
  response_text :: jsstring
  tokens_generated :: nat
  finish_reason :: jsstring

record StreamToken =
  token :: jsstring
  token_id :: number
  complete :: bool

text \<open>
  The declared type \<^verbatim>\<open>StreamToken\<close> among the JSON values. The cast
  \<^verbatim>\<open>JSON.parse(data) as StreamToken\<close> checks nothing: the code works on whatever value
  the parser returns.
\<close>

definition of_token :: "StreamToken \<Rightarrow> json" where
  "of_token t = JObj [(js ''token'', JStr (token t)), (js ''token_id'', JNum (token_id t)),
                      (js ''complete'', JBool (complete t))]"

definition as_token :: "json \<Rightarrow> StreamToken option" where
  "as_token v =
     (case (get_prop v (js ''token''), get_prop v (js ''token_id''), get_prop v (js ''complete'')) of
        (Some (JStr s), Some (JNum i), Some (JBool b)) \<Rightarrow>
          Some \<lparr>token = s, token_id = i, complete = b\<rparr>
      | _ \<Rightarrow> None)"

text \<open>
  One entry of the trace per call that leaves \<^verbatim>\<open>inferenceStream\<close>.
  \<open>OnToken v acc n\<close> is the call \<^verbatim>\<open>options.onToken(v)\<close>, made while the local
  variables \<^verbatim>\<open>accumulatedText\<close> and \<^verbatim>\<open>tokenCount\<close> hold \<open>acc\<close> and \<open>n\<close>;
  \<open>ConsoleError d\<close> is \<^verbatim>\<open>console.error("Failed to parse SSE data:", d, e)\<close>.
\<close>

datatype event =
  OnToken json jsstring nat
| OnComplete InferenceResponse
| OnError js_error
| ConsoleError jsstring

text \<open>The callbacks of a trace are its entries other than the console log.\<close>

fun is_callback :: "event \<Rightarrow> bool" where
  "is_callback (ConsoleError d) = False"
| "is_callback ev = True"

definition callbacks :: "event list \<Rightarrow> event list" where
  "callbacks tr = filter is_callback tr"

text \<open>
  \<^verbatim>\<open>StreamOptions\<close>: \<^verbatim>\<open>onToken\<close> is mandatory, \<^verbatim>\<open>onComplete\<close> and \<^verbatim>\<open>onError\<close> are
  optional and are called through \<^verbatim>\<open>?.\<close>. The callbacks are the caller's. A call of
  \<^verbatim>\<open>onToken\<close> or \<^verbatim>\<open>onComplete\<close> returns or throws, as a function of the callback
  calls made before it and of its argument; the \<^verbatim>\<open>try\<close> around them catches what
  they throw. \<^verbatim>\<open>onError\<close> is recorded when it is called and is taken to return.
\<close>

datatype callback_result = Returns | Throws js_thrown

record StreamOptions =
  onToken :: "event list \<Rightarrow> json \<Rightarrow> callback_result"
  onComplete :: "(event list \<Rightarrow> InferenceResponse \<Rightarrow> callback_result) option"
  has_onError :: bool

text \<open>The local variables of the read loop, with the trace.\<close>

record 'd locals =
  decoder :: 'd
  buffer :: jsstring
  accumulatedText :: jsstring
  tokenCount :: nat
  trace :: "event list"

section \<open>Frame decoder and token accumulation\<close>

text \<open>
  \<^verbatim>\<open>TextDecoder\<close> and \<^verbatim>\<open>JSON.parse\<close> belong to the platform. A streaming
  \<^verbatim>\<open>TextDecoder\<close> consumes its input one byte at a time and keeps its state between
  calls of \<^verbatim>\<open>decode(value, { stream: true })\<close>; its byte handler \<open>dstep\<close> is a
  parameter. \<^verbatim>\<open>JSON.parse\<close> is the parameter \<open>parse\<close>: \<open>None\<close> when it raises a
  \<^verbatim>\<open>SyntaxError\<close>, and the value of the text otherwise.
\<close>

type_synonym 'd decoder_step = "'d \<Rightarrow> byte \<Rightarrow> 'd \<times> jsstring"

type_synonym json_parse = "jsstring \<Rightarrow> json option"

fun decode :: "'d decoder_step \<Rightarrow> 'd \<Rightarrow> byte list \<Rightarrow> 'd \<times> jsstring" where
  "decode dstep d [] = (d, [])"
| "decode dstep d (b # bs) =
     (case dstep d b of (d1, s1) \<Rightarrow>
        (case decode dstep d1 bs of (d2, s2) \<Rightarrow> (d2, s1 @ s2)))"

definition emit :: "event \<Rightarrow> 'd locals \<Rightarrow> 'd locals" where
  "emit ev st = st\<lparr>trace := trace st @ [ev]\<rparr>"

text \<open>
  The statements of the inner \<^verbatim>\<open>try\<close> block after \<^verbatim>\<open>JSON.parse\<close> has returned
  \<open>v\<close>, in their order, with its \<^verbatim>\<open>catch\<close>: append the fragment, count the token,
  call \<^verbatim>\<open>onToken\<close>, and on a truthy \<^verbatim>\<open>complete\<close> call \<^verbatim>\<open>onComplete?.\<close> with the
  aggregate. Whatever is thrown on the way (by the read of the fragment, by
  \<^verbatim>\<open>onToken\<close> or by \<^verbatim>\<open>onComplete\<close>) ends the block and is logged with the payload.
\<close>

definition handle_token ::
  "StreamOptions \<Rightarrow> jsstring \<Rightarrow> jsstring \<Rightarrow> json \<Rightarrow> 'd locals \<Rightarrow> 'd locals" where
  "handle_token opts modelId payload v st =
     (case fragment v of
        None \<Rightarrow> emit (ConsoleError payload) st
      | Some s \<Rightarrow>
          (let st1 = st\<lparr>accumulatedText := accumulatedText st @ s\<rparr>;
               st2 = st1\<lparr>tokenCount := tokenCount st1 + 1\<rparr>;
               st3 = emit (OnToken v (accumulatedText st2) (tokenCount st2)) st2
           in (case onToken opts (callbacks (trace st2)) v of
                 Throws x \<Rightarrow> emit (ConsoleError payload) st3
               | Returns \<Rightarrow>
                   (if flagged v then
                      (case onComplete opts of
                         None \<Rightarrow> st3
                       | Some f \<Rightarrow>
                           (let res = \<lparr>response_model_id = modelId,
                                       response_text = accumulatedText st3,
                                       tokens_generated = tokenCount st3,
                                       finish_reason = js ''stop''\<rparr>;
                                st4 = emit (OnComplete res) st3
                            in (case f (callbacks (trace st3)) res of
                                  Throws x \<Rightarrow> emit (ConsoleError payload) st4
                                | Returns \<Rightarrow> st4)))
                    else st3))))"

text \<open>The body of \<^verbatim>\<open>for (const line of lines)\<close>.\<close>

definition process_line ::
  "json_parse \<Rightarrow> StreamOptions \<Rightarrow> jsstring \<Rightarrow> 'd locals \<Rightarrow> jsstring \<Rightarrow> 'd locals" where
  "process_line parse opts modelId st line =
     (if startsWith (trim line) (js ''event: token'') then st
      else if startsWith (trim line) (js ''data: '') then
        (let payload = slice 6 (trim line) in
         if payload \<noteq> [] then
           (case parse payload of
              None \<Rightarrow> emit (ConsoleError payload) st
            | Some v \<Rightarrow> handle_token opts modelId payload v st)
         else st)
      else st)"

definition process_lines ::
  "json_parse \<Rightarrow> StreamOptions \<Rightarrow> jsstring \<Rightarrow> 'd locals \<Rightarrow> jsstring list \<Rightarrow> 'd locals" where
  "process_lines parse opts modelId st ls = foldl (process_line parse opts modelId) st ls"

text \<open>
  One iteration of the read loop after a chunk has arrived: decode, append to the
  buffer, split, keep the last piece (\<^verbatim>\<open>lines.pop() ?? ""\<close>), handle the others.
\<close>

definition process_chunk ::
  "'d decoder_step \<Rightarrow> json_parse \<Rightarrow> StreamOptions \<Rightarrow> jsstring \<Rightarrow> 'd locals \<Rightarrow> byte list \<Rightarrow> 'd locals" where
  "process_chunk dstep parse opts modelId st val =
     (case decode dstep (decoder st) val of (d1, s) \<Rightarrow>
        (let buf = buffer st @ s;
             pieces = split_nl buf;
             rest = (if pieces = [] then [] else last pieces);
             st1 = st\<lparr>decoder := d1, buffer := rest\<rparr>
         in process_lines parse opts modelId st1 (butlast pieces)))"

section \<open>Streaming inference: transport and control flow\<close>

text \<open>
  The timer armed by \<^verbatim>\<open>setTimeout(() => controller.abort(), this.timeout)\<close>:
  \<open>Some r\<close> while it is pending with \<open>r\<close> milliseconds left, \<open>None\<close> once it has been
  cleared. Time passes only while the function awaits the network; an awaited operation
  that takes \<open>l\<close> milliseconds is aborted when a pending timer runs out within \<open>l\<close>.
  The platform keeps the delay in 32 bits: Node runs a delay above 2147483647 ms after
  1 ms. Latencies are whole milliseconds, so a delay of 0 runs out before any awaited
  operation settles.
\<close>

type_synonym timer = "nat option"

definition setTimeout :: "nat \<Rightarrow> timer" where
  "setTimeout ms = Some (if int ms > 2147483647 then 1 else ms)"

definition clearTimeout :: "timer \<Rightarrow> timer" where
  "clearTimeout t = None"

definition fires_within :: "timer \<Rightarrow> nat \<Rightarrow> bool" where
  "fires_within t l = (case t of None \<Rightarrow> False | Some r \<Rightarrow> r \<le> l)"

definition elapse :: "timer \<Rightarrow> nat \<Rightarrow> timer" where
  "elapse t l = map_option (\<lambda>r. r - l) t"

text \<open>The rejection of an operation whose \<^verbatim>\<open>AbortSignal\<close> fired.\<close>

definition abort_error :: js_error where
  "abort_error = JsError (js ''AbortError'') (js ''This operation was aborted'') None None"

text \<open>
  What the network does, as the function sees it. \<^verbatim>\<open>fetch\<close> settles after
  \<open>fetch_latency\<close> milliseconds, rejecting or giving a response; a response has a
  status, the result of \<^verbatim>\<open>response.text()\<close>, and a body (or none), whose reader
  answers each \<^verbatim>\<open>read()\<close> after some milliseconds with a chunk, with
  \<^verbatim>\<open>done\<close> or by rejecting. A reader whose answers run out never settles.
\<close>

datatype read_result = Chunk "byte list" | Done | ReadThrows js_thrown

record response =
  status :: number
  text_result :: "js_thrown + jsstring"
  body :: "(nat \<times> read_result) list option"

datatype fetch_outcome = FetchRejects js_thrown | FetchResponds response

record network =
  fetch_latency :: nat
  fetch_result :: fetch_outcome

text \<open>\<^verbatim>\<open>response.ok\<close>\<close>

definition ok :: "response \<Rightarrow> bool" where
  "ok r \<longleftrightarrow> 200 \<le> status r \<and> status r \<le> 299"

text \<open>\<^verbatim>\<open>options.onError?.(error)\<close>\<close>

definition call_onError :: "StreamOptions \<Rightarrow> js_error \<Rightarrow> event list \<Rightarrow> event list" where
  "call_onError opts e tr = (if has_onError opts then tr @ [OnError e] else tr)"

text \<open>How control leaves the \<^verbatim>\<open>try\<close> block.\<close>

datatype loop_exit = Broke | Threw js_thrown | Awaiting

text \<open>\<^verbatim>\<open>while (true) { const { done, value } = await reader.read(); ... }\<close>\<close>

fun read_loop ::
  "'d decoder_step \<Rightarrow> json_parse \<Rightarrow> StreamOptions \<Rightarrow> jsstring \<Rightarrow> timer \<Rightarrow> 'd locals \<Rightarrow>
   (nat \<times> read_result) list \<Rightarrow> 'd locals \<times> loop_exit" where
  "read_loop dstep parse opts modelId tm st [] = (st, Awaiting)"
| "read_loop dstep parse opts modelId tm st ((l, r) # rs) =
     (if fires_within tm l then (st, Threw (ErrorObj abort_error))
      else (case r of
              Done \<Rightarrow> (st, Broke)
            | ReadThrows x \<Rightarrow> (st, Threw x)
            | Chunk val \<Rightarrow>
                read_loop dstep parse opts modelId (elapse tm l)
                  (process_chunk dstep parse opts modelId st val) rs))"

definition init_locals :: "'d \<Rightarrow> 'd locals" where
  "init_locals d0 =
     \<lparr>decoder = d0, buffer = [], accumulatedText = [], tokenCount = 0, trace = []\<rparr>"

definition try_block ::
  "nat \<Rightarrow> 'd decoder_step \<Rightarrow> 'd \<Rightarrow> json_parse \<Rightarrow> StreamOptions \<Rightarrow> InferenceRequest \<Rightarrow>
   network \<Rightarrow> event list \<times> loop_exit" where
  "try_block timeout dstep d0 parse opts data net =
     (let timeoutId = setTimeout timeout in
      if fires_within timeoutId (fetch_latency net) then ([], Threw (ErrorObj abort_error))
      else (case fetch_result net of
              FetchRejects x \<Rightarrow> ([], Threw x)
            | FetchResponds resp \<Rightarrow>
                (let cleared = clearTimeout (elapse timeoutId (fetch_latency net)) in
                 if \<not> ok resp then
                   (case text_result resp of
                      Inl x \<Rightarrow> ([], Threw x)
                    | Inr errorText \<Rightarrow>
                        (let error = createError (status resp) errorText
                         in (call_onError opts error [], Threw (ErrorObj error))))
                 else (case body resp of
                         None \<Rightarrow>
                           (let error = new_Error (js ''No response body'')
                            in (call_onError opts error [], Threw (ErrorObj error)))
                       | Some reads \<Rightarrow>
                           (case read_loop dstep parse opts (model_id data) cleared
                                   (init_locals d0) reads of
                              (st, ex) \<Rightarrow> (trace st, ex))))))"

datatype promise = Fulfilled | Rejected js_thrown | Pending

record stream_result =
  calls :: "event list"
  settled :: promise

text \<open>
  The \<^verbatim>\<open>catch (error)\<close> block. After its \<^verbatim>\<open>clearTimeout\<close> no timer is pending, and
  nothing is awaited any more. A thrown value that is not an \<^verbatim>\<open>Error\<close> passes both
  \<^verbatim>\<open>if\<close> statements and the function returns.
\<close>

definition catch_block :: "nat \<Rightarrow> StreamOptions \<Rightarrow> event list \<Rightarrow> js_thrown \<Rightarrow> stream_result" where
  "catch_block timeout opts tr x =
     (case x of
        ErrorObj error \<Rightarrow>
          (if name error = js ''AbortError'' then
             (let timeoutError =
                    new_Error (js ''Stream timeout after '' @ show_nat timeout @ js ''ms'')
              in \<lparr>calls = call_onError opts timeoutError tr,
                  settled = Rejected (ErrorObj timeoutError)\<rparr>)
           else \<lparr>calls = call_onError opts error tr, settled = Rejected (ErrorObj error)\<rparr>)
      | NonError \<Rightarrow> \<lparr>calls = tr, settled = Fulfilled\<rparr>)"

definition inferenceStream ::
  "nat \<Rightarrow> 'd decoder_step \<Rightarrow> 'd \<Rightarrow> json_parse \<Rightarrow> StreamOptions \<Rightarrow> InferenceRequest \<Rightarrow>
   network \<Rightarrow> stream_result" where
  "inferenceStream timeout dstep d0 parse opts data net =
     (case try_block timeout dstep d0 parse opts data net of
        (tr, Broke) \<Rightarrow> \<lparr>calls = tr, settled = Fulfilled\<rparr>
      | (tr, Awaiting) \<Rightarrow> \<lparr>calls = tr, settled = Pending\<rparr>
      | (tr, Threw x) \<Rightarrow> catch_block timeout opts tr x)"

section \<open>Model registry\<close>

text \<open>
  The declared types \<^verbatim>\<open>InferenceBackend\<close>, \<^verbatim>\<open>ModelCapability\<close> and
  \<^verbatim>\<open>LatencyProfile\<close> are unions of string literals, and the router passes request
  strings on under a cast, so these fields are strings.
\<close>

record ModelRegistryEntry =
  entry_id :: jsstring
  entry_name :: jsstring
  inference :: jsstring
  context_size :: jsnumber
  quant :: "jsstring option"
  capabilities :: "jsstring list"
  latency :: "jsstring option"
  size_bytes :: number
  loaded :: bool
  loaded_at :: "jsstring option"

record RegistryEntryInput =
  input_id :: jsstring
  input_inference :: jsstring
  input_context :: jsnumber
  input_quant :: "jsstring option"
  input_capabilities :: "jsstring list"
  input_latency :: "jsstring option"

record FindModelOptions =
  opt_capability :: "jsstring option"
  opt_latency :: "jsstring option"
  opt_inference :: "jsstring option"
  opt_minContext :: "jsnumber option"
  opt_loaded :: "bool option"

text \<open>
  \<^verbatim>\<open>Map<string, ModelRegistryEntry>\<close>: an association list in insertion order;
  \<^verbatim>\<open>set\<close> replaces the value of a key already there, in place, and appends a new key.
\<close>

type_synonym registry = "(jsstring \<times> ModelRegistryEntry) list"

fun map_set :: "jsstring \<Rightarrow> ModelRegistryEntry \<Rightarrow> registry \<Rightarrow> registry" where
  "map_set k v [] = [(k, v)]"
| "map_set k v ((k', v') # r) = (if k = k' then (k, v) # r else (k', v') # map_set k v r)"

definition registerEntry :: "jsstring \<Rightarrow> RegistryEntryInput \<Rightarrow> registry \<Rightarrow> registry" where
  "registerEntry i entry r =
     map_set i \<lparr>entry_id = i, entry_name = input_id entry, inference = input_inference entry,
                context_size = input_context entry, quant = input_quant entry,
                capabilities = input_capabilities entry, latency = input_latency entry,
                size_bytes = 4000000000, loaded = False, loaded_at = None\<rparr> r"

text \<open>The constructor, from \<^verbatim>\<open>Object.entries(config.entries)\<close> in its order.\<close>

definition ModelRegistry :: "(jsstring \<times> RegistryEntryInput) list \<Rightarrow> registry" where
  "ModelRegistry entries = foldl (\<lambda>r (i, entry). registerEntry i entry r) [] entries"

definition list_entries :: "registry \<Rightarrow> ModelRegistryEntry list" where
  "list_entries r = map snd r"

definition get_entry :: "registry \<Rightarrow> jsstring \<Rightarrow> ModelRegistryEntry option" where
  "get_entry r i = map_of r i"

text \<open>
  The predicate of \<^verbatim>\<open>filter\<close> in \<^verbatim>\<open>find\<close>. Each test is guarded by the truthiness
  of the option: an absent option, an empty string, the number 0 and \<^verbatim>\<open>NaN\<close> are
  falsy.
\<close>

definition matches :: "FindModelOptions \<Rightarrow> ModelRegistryEntry \<Rightarrow> bool" where
  "matches options model =
     (if (case opt_capability options of
            None \<Rightarrow> False | Some c \<Rightarrow> c \<noteq> [] \<and> c \<notin> set (capabilities model)) then False
      else if (case opt_latency options of
            None \<Rightarrow> False | Some l \<Rightarrow> l \<noteq> [] \<and> latency model \<noteq> Some l) then False
      else if (case opt_inference options of
            None \<Rightarrow> False | Some b \<Rightarrow> b \<noteq> [] \<and> inference model \<noteq> b) then False
      else if (case opt_minContext options of
            None \<Rightarrow> False | Some c \<Rightarrow> num_truthy c \<and> num_lt (context_size model) c) then False
      else if (case opt_loaded options of
            None \<Rightarrow> False | Some b \<Rightarrow> loaded model \<noteq> b) then False
      else True)"

definition find_models :: "registry \<Rightarrow> FindModelOptions \<Rightarrow> ModelRegistryEntry list" where
  "find_models r options = filter (matches options) (list_entries r)"

text \<open>\<^verbatim>\<open>this.find(options)[0]\<close>: \<^verbatim>\<open>undefined\<close> on an empty result.\<close>

definition findOne :: "registry \<Rightarrow> FindModelOptions \<Rightarrow> ModelRegistryEntry option" where
  "findOne r options = (case find_models r options of [] \<Rightarrow> None | m # _ \<Rightarrow> Some m)"

section \<open>Request router\<close>

record chat_options =
  req_model :: "jsstring option"
  req_latency :: "jsstring option"
  req_inference :: "jsstring option"
  req_minContext :: "jsnumber option"
  req_max_tokens :: "number option"
  req_temperature :: "number option"

record chat_request =
  req_prompt :: jsstring
  req_options :: "chat_options option"

text \<open>
  The handler of \<^verbatim>\<open>POST /router/chat\<close>. The engine is reached through
  \<^verbatim>\<open>client.inference\<close> only; \<open>engine\<close> gives what that call resolves to or throws, and
  the result lists the inference requests that were issued.
\<close>

record route_result =
  engine_calls :: "InferenceRequest list"
  outcome :: "js_thrown + InferenceResponse"

definition no_options :: chat_options where
  "no_options = \<lparr>req_model = None, req_latency = None, req_inference = None,
                  req_minContext = None, req_max_tokens = None, req_temperature = None\<rparr>"

definition chat_criteria :: "chat_options \<Rightarrow> FindModelOptions" where
  "chat_criteria options =
     \<lparr>opt_capability = Some (js ''chat''), opt_latency = req_latency options,
      opt_inference = req_inference options, opt_minContext = req_minContext options,
      opt_loaded = None\<rparr>"

definition call_inference ::
  "(InferenceRequest \<Rightarrow> js_thrown + InferenceResponse) \<Rightarrow> chat_request \<Rightarrow> chat_options \<Rightarrow>
   ModelRegistryEntry \<Rightarrow> route_result" where
  "call_inference engine request options model =
     (let req = \<lparr>model_id = entry_id model, prompt = req_prompt request,
                 max_tokens = req_max_tokens options, temperature = req_temperature options\<rparr>
      in \<lparr>engine_calls = [req], outcome = engine req\<rparr>)"

definition router_chat ::
  "registry \<Rightarrow> (InferenceRequest \<Rightarrow> js_thrown + InferenceResponse) \<Rightarrow> chat_request \<Rightarrow>
   route_result" where
  "router_chat r engine request =
     (let options = (case req_options request of None \<Rightarrow> no_options | Some v \<Rightarrow> v) in
      if (case req_model options of None \<Rightarrow> False | Some m \<Rightarrow> m \<noteq> []) then
        (case get_entry r (the (req_model options)) of
           None \<Rightarrow>
             \<lparr>engine_calls = [],
              outcome = Inl (ErrorObj (new_Error
                (js ''Model '' @ [apostrophe] @ the (req_model options) @ [apostrophe]
                   @ js '' not found in registry'')))\<rparr>
         | Some model \<Rightarrow> call_inference engine request options model)
      else
        (case findOne r (chat_criteria options) of
           None \<Rightarrow>
             \<lparr>engine_calls = [],
              outcome = Inl (ErrorObj (new_Error
                (js ''No suitable model found for the given constraints'')))\<rparr>
         | Some model \<Rightarrow> call_inference engine request options model))"

section \<open>Reading a trace\<close>

text \<open>The values handed to \<^verbatim>\<open>onToken\<close>, in order.\<close>

fun observed :: "event list \<Rightarrow> json list" where
  "observed [] = []"
| "observed (OnToken v acc n # evs) = v # observed evs"
| "observed (ev # evs) = observed evs"

fun is_OnComplete :: "event \<Rightarrow> bool" where
  "is_OnComplete (OnComplete res) = True"
| "is_OnComplete ev = False"

fun is_OnError :: "event \<Rightarrow> bool" where
  "is_OnError (OnError e) = True"
| "is_OnError ev = False"

definition completion_fired :: "event list \<Rightarrow> bool" where
  "completion_fired tr = list_ex is_OnComplete tr"

definition error_fired :: "event list \<Rightarrow> bool" where
  "error_fired tr = list_ex is_OnError tr"

text \<open>
  Some \<^verbatim>\<open>onToken\<close> call among the callbacks \<open>evs\<close>, made after the callbacks \<open>h\<close>, was
  given a completion-flagged value and returned.
\<close>

fun delivered :: "StreamOptions \<Rightarrow> event list \<Rightarrow> event list \<Rightarrow> bool" where
  "delivered opts h [] = False"
| "delivered opts h (OnToken v acc n # evs) =
     ((flagged v \<and> onToken opts h v = Returns)
      \<or> delivered opts (h @ [OnToken v acc n]) evs)"
| "delivered opts h (ev # evs) = delivered opts (h @ [ev]) evs"

definition completion_delivered :: "StreamOptions \<Rightarrow> event list \<Rightarrow> bool" where
  "completion_delivered opts tr = delivered opts [] (callbacks tr)"

text \<open>
  A trace agrees with an accumulated text and count when every \<^verbatim>\<open>onToken\<close> call in it
  was made with the text and count already extended by its fragment, and every
  \<^verbatim>\<open>onComplete\<close> call carries the text and count reached so far.
\<close>

fun consistent :: "jsstring \<Rightarrow> nat \<Rightarrow> event list \<Rightarrow> bool" where
  "consistent acc n [] = True"
| "consistent acc n (OnToken v acc' n' # evs) =
     (acc' = acc @ fragment_text v \<and> n' = n + 1 \<and> consistent acc' n' evs)"
| "consistent acc n (OnComplete res # evs) =
     (response_text res = acc \<and> tokens_generated res = n \<and> consistent acc n evs)"
| "consistent acc n (ev # evs) = consistent acc n evs"

fun is_rejected :: "promise \<Rightarrow> bool" where
  "is_rejected (Rejected x) = True"
| "is_rejected p = False"

section \<open>The records of a byte stream\<close>

text \<open>
  The text a byte sequence decodes to; the records in it, which are the pieces that are
  followed by a line feed (what follows the last line feed stays in the buffer and is
  never handled); the payload of a record; the value of a record, when its payload
  parses and the fragment of the value can be read; and the callbacks that a sequence
  of values gives rise to, after the callbacks \<open>h\<close> and from an accumulated text and
  count.
\<close>

definition stream_text :: "'d decoder_step \<Rightarrow> 'd \<Rightarrow> byte list \<Rightarrow> jsstring" where
  "stream_text dstep d0 bytes = snd (decode dstep d0 bytes)"

definition records :: "jsstring \<Rightarrow> jsstring list" where
  "records txt = butlast (split_nl txt)"

definition line_payload :: "jsstring \<Rightarrow> jsstring option" where
  "line_payload line =
     (if startsWith (trim line) (js ''event: token'') then None
      else if startsWith (trim line) (js ''data: '') \<and> slice 6 (trim line) \<noteq> []
           then Some (slice 6 (trim line))
      else None)"

definition line_value :: "json_parse \<Rightarrow> jsstring \<Rightarrow> json option" where
  "line_value parse line =
     (case line_payload line of
        None \<Rightarrow> None
      | Some p \<Rightarrow> (case parse p of
                    None \<Rightarrow> None
                  | Some v \<Rightarrow> (case fragment v of None \<Rightarrow> None | Some s \<Rightarrow> Some v)))"

definition stream_values ::
  "'d decoder_step \<Rightarrow> 'd \<Rightarrow> json_parse \<Rightarrow> byte list \<Rightarrow> json list" where
  "stream_values dstep d0 parse bytes =
     List.map_filter (line_value parse) (records (stream_text dstep d0 bytes))"

definition aggregate :: "jsstring \<Rightarrow> jsstring \<Rightarrow> nat \<Rightarrow> InferenceResponse" where
  "aggregate modelId acc n =
     \<lparr>response_model_id = modelId, response_text = acc, tokens_generated = n,
      finish_reason = js ''stop''\<rparr>"

definition value_events ::
  "StreamOptions \<Rightarrow> jsstring \<Rightarrow> event list \<Rightarrow> jsstring \<Rightarrow> nat \<Rightarrow> json \<Rightarrow> event list" where
  "value_events opts modelId h acc n v =
     OnToken v (acc @ fragment_text v) (n + 1)
     # (if onToken opts h v = Returns \<and> flagged v \<and> onComplete opts \<noteq> None
        then [OnComplete (aggregate modelId (acc @ fragment_text v) (n + 1))]
        else [])"

fun values_events ::
  "StreamOptions \<Rightarrow> jsstring \<Rightarrow> event list \<Rightarrow> jsstring \<Rightarrow> nat \<Rightarrow> json list \<Rightarrow> event list" where
  "values_events opts modelId h acc n [] = []"
| "values_events opts modelId h acc n (v # vs) =
     value_events opts modelId h acc n v
     @ values_events opts modelId (h @ value_events opts modelId h acc n v)
         (acc @ fragment_text v) (n + 1) vs"

text \<open>A response body that delivers the given chunks and then whatever \<open>rest\<close> says.\<close>

definition chunk_reads :: "(nat \<times> byte list) list \<Rightarrow> (nat \<times> read_result) list" where
  "chunk_reads lcs = map (\<lambda>(l, c). (l, Chunk c)) lcs"

text \<open>The same exchange with every \<^verbatim>\<open>read()\<close> answered at once.\<close>

definition instant_reads :: "network \<Rightarrow> network" where
  "instant_reads net =
     net\<lparr>fetch_result :=
       (case fetch_result net of
          FetchRejects x \<Rightarrow> FetchRejects x
        | FetchResponds resp \<Rightarrow>
            FetchResponds (resp\<lparr>body := map_option (map (\<lambda>(l, r). (0, r))) (body resp)\<rparr>))\<rparr>"

text \<open>
  A context-window size is a number that is not negative; a bound is a number.
\<close>

fun is_size :: "jsnumber \<Rightarrow> bool" where
  "is_size (Num x) = (0 \<le> x)"
| "is_size NaN = False"

section \<open>Concrete instances\<close>

text \<open>
  A decoder for ASCII input, a parser that knows a few payloads, and the bytes of an
  ASCII text, for evaluating the functions above on concrete streams.
\<close>

definition ascii_step :: "unit decoder_step" where
  "ascii_step d b = ((), [ucast b])"

definition bytes_of :: "string \<Rightarrow> byte list" where
  "bytes_of s = map (\<lambda>c. word_of_nat (of_char c)) s"

definition tok_Hi :: json where
  "tok_Hi = of_token \<lparr>token = js ''Hi'', token_id = 0, complete = False\<rparr>"

definition tok_bang :: json where
  "tok_bang = of_token \<lparr>token = js ''!'', token_id = 1, complete = True\<rparr>"

definition tok_end :: json where
  "tok_end = of_token \<lparr>token = js ''.'', token_id = 2, complete = True\<rparr>"

definition payload_Hi :: string where
  "payload_Hi = ''{\"token\":\"Hi\",\"token_id\":0,\"complete\":false}''"

definition payload_bang :: string where
  "payload_bang = ''{\"token\":\"!\",\"token_id\":1,\"complete\":true}''"

definition payload_end :: string where
  "payload_end = ''{\"token\":\".\",\"token_id\":2,\"complete\":true}''"

definition payload_bad :: string where
  "payload_bad = ''{\"token\":''"

definition payload_42 :: string where
  "payload_42 = ''42''"

definition demo_parse :: json_parse where
  "demo_parse p =
     (if p = js payload_Hi then Some tok_Hi
      else if p = js payload_bang then Some tok_bang
      else if p = js payload_end then Some tok_end
      else if p = js payload_42 then Some (JNum 42)
      else if p = js ''null'' then Some JNull
      else None)"

text \<open>
  Callbacks that always return, and an \<^verbatim>\<open>onToken\<close> that throws when it is handed a
  completion-flagged value.
\<close>

definition both_callbacks :: StreamOptions where
  "both_callbacks =
     \<lparr>onToken = (\<lambda>h v. Returns), onComplete = Some (\<lambda>h res. Returns), has_onError = True\<rparr>"

definition throwing_callbacks :: StreamOptions where
  "throwing_callbacks =
     both_callbacks\<lparr>onToken := (\<lambda>h v. if flagged v then Throws NonError else Returns)\<rparr>"

definition demo_request :: InferenceRequest where
  "demo_request = \<lparr>model_id = js ''mistral'', prompt = js ''Hello'',
                    max_tokens = Some 512, temperature = None\<rparr>"

text \<open>A data record, and the same record with its line feed.\<close>

definition data_record :: "string \<Rightarrow> string" where
  "data_record payload = ''data: '' @ payload"

definition data_line :: "string \<Rightarrow> string" where
  "data_line payload = data_record payload @ ''\<newline>''"

definition ok_response :: "(nat \<times> read_result) list \<Rightarrow> network" where
  "ok_response reads =
     \<lparr>fetch_latency = 10,
      fetch_result = FetchResponds \<lparr>status = 200, text_result = Inr [], body = Some reads\<rparr>\<rparr>"

text \<open>
  Catalogs: the two chat models of the specification's example, a catalog whose only
  model cannot chat, and one whose first model cannot chat.
\<close>

definition chat_input :: "string \<Rightarrow> number \<Rightarrow> RegistryEntryInput" where
  "chat_input n c =
     \<lparr>input_id = js n, input_inference = js ''ollama'', input_context = Num c,
      input_quant = None, input_capabilities = [js ''chat''], input_latency = Some (js ''fast'')\<rparr>"

definition demo_catalog :: registry where
  "demo_catalog = ModelRegistry [(js ''a'', chat_input ''model-a'' 4096),
                                 (js ''b'', chat_input ''model-b'' 8192)]"

definition vision_input :: "string \<Rightarrow> number \<Rightarrow> RegistryEntryInput" where
  "vision_input n c = (chat_input n c)\<lparr>input_capabilities := [js ''vision'']\<rparr>"

definition vision_catalog :: registry where
  "vision_catalog = ModelRegistry [(js ''v'', vision_input ''model-v'' 8192)]"

definition mixed_catalog :: registry where
  "mixed_catalog = ModelRegistry [(js ''v'', vision_input ''model-v'' 8192),
                                  (js ''b'', chat_input ''model-b'' 8192)]"

definition only_minContext :: "jsnumber \<Rightarrow> FindModelOptions" where
  "only_minContext c =
     \<lparr>opt_capability = None, opt_latency = None, opt_inference = None,
      opt_minContext = Some c, opt_loaded = None\<rparr>"

definition demo_engine :: "InferenceRequest \<Rightarrow> js_thrown + InferenceResponse" where
  "demo_engine req =
     Inr \<lparr>response_model_id = model_id req, response_text = js ''Hello!'',
          tokens_generated = 2, finish_reason = js ''stop''\<rparr>"

definition chat_with :: "jsstring option \<Rightarrow> chat_request" where
  "chat_with m = \<lparr>req_prompt = js ''Hello'', req_options = Some (no_options\<lparr>req_model := m\<rparr>)\<rparr>"

section \<open>Lemmas: the frame decoder\<close>

lemma split_nl_nonempty: "split_nl s \<noteq> []"
  by (induction s) (auto split: list.splits)

lemma split_nl_append:
  "split_nl (xs @ ys) = butlast (split_nl xs) @ split_nl (last (split_nl xs) @ ys)"
proof (induction xs)
  case Nil
  then show ?case by simp
next
  case (Cons c cs)
  show ?case
  proof (cases "c = newline")
    case True
    then show ?thesis using Cons split_nl_nonempty [of cs] by simp
  next
    case False
    obtain l ls where s: "split_nl cs = l # ls"
      using split_nl_nonempty [of cs] by (cases "split_nl cs") auto
    show ?thesis
    proof (cases ls)
      case Nil
      then show ?thesis using False s Cons by simp
    next
      case (Cons a list)
      then show ?thesis using False s Cons.IH by simp
    qed
  qed
qed

lemma split_nl_no_newline: "newline \<notin> set s \<Longrightarrow> split_nl s = [s]"
  by (induction s) auto

lemma last_split_nl_no_newline: "newline \<notin> set (last (split_nl s))"
proof (induction s)
  case Nil
  then show ?case by simp
next
  case (Cons c cs)
  obtain l ls where s: "split_nl cs = l # ls"
    using split_nl_nonempty [of cs] by (cases "split_nl cs") auto
  show ?case using Cons s by (cases ls) auto
qed

lemma decode_append:
  "decode dstep d (a @ b) =
     (case decode dstep d a of (d1, s1) \<Rightarrow>
        (case decode dstep d1 b of (d2, s2) \<Rightarrow> (d2, s1 @ s2)))"
  by (induction a arbitrary: d) (auto split: prod.splits)

lemma stream_text_append:
  "stream_text dstep d (a @ b) =
     stream_text dstep d a @ stream_text dstep (fst (decode dstep d a)) b"
  by (simp add: stream_text_def decode_append split: prod.splits)

lemma process_line_cases:
  "process_line parse opts modelId st line =
     (case line_payload line of
        None \<Rightarrow> st
      | Some p \<Rightarrow> (case parse p of
                    None \<Rightarrow> emit (ConsoleError p) st
                  | Some v \<Rightarrow> handle_token opts modelId p v st))"
  by (simp add: process_line_def line_payload_def Let_def)

text \<open>What handling a value adds to the trace.\<close>

lemma handle_token_trace:
  "\<exists>evs. trace (handle_token opts modelId p v st) = trace st @ evs
     \<and> callbacks evs =
         (if fragment v = None then []
          else value_events opts modelId (callbacks (trace st)) (accumulatedText st)
                 (tokenCount st) v)
     \<and> (fragment v = None \<longrightarrow> evs = [ConsoleError p])"
proof (cases "fragment v")
  case None
  then show ?thesis
    by (simp add: handle_token_def emit_def callbacks_def)
next
  case (Some s)
  show ?thesis
  proof (cases "onToken opts (callbacks (trace st)) v")
    case (Throws x)
    then show ?thesis
      using Some
      by (simp add: handle_token_def emit_def callbacks_def Let_def value_events_def
          fragment_text_def)
  next
    case Returns
    show ?thesis
    proof (cases "flagged v")
      case False
      then show ?thesis
        using Some Returns
        by (simp add: handle_token_def emit_def callbacks_def Let_def value_events_def
            fragment_text_def)
    next
      case True
      show ?thesis
      proof (cases "onComplete opts")
        case None
        then show ?thesis
          using Some Returns True
          by (simp add: handle_token_def emit_def callbacks_def Let_def value_events_def
              fragment_text_def)
      next
        case (Some f)
        note f = this
        show ?thesis
          using \<open>fragment v = Some s\<close> Returns True f
          by (cases "f (callbacks (trace st) @ [OnToken v (accumulatedText st @ s)
                (Suc (tokenCount st))])
                (aggregate modelId (accumulatedText st @ s) (Suc (tokenCount st)))")
             (simp_all add: handle_token_def emit_def callbacks_def Let_def value_events_def
               fragment_text_def aggregate_def)
      qed
    qed
  qed
qed

lemma handle_token_fields:
  "decoder (handle_token opts modelId p v st) = decoder st"
  "buffer (handle_token opts modelId p v st) = buffer st"
  "accumulatedText (handle_token opts modelId p v st) = accumulatedText st @ fragment_text v"
  "tokenCount (handle_token opts modelId p v st) =
     tokenCount st + (if fragment v = None then 0 else 1)"
  by (simp_all add: handle_token_def emit_def Let_def fragment_text_def
      split: option.splits callback_result.splits)

lemma process_line_frame:
  "decoder (process_line parse opts modelId st line) = decoder st"
  "buffer (process_line parse opts modelId st line) = buffer st"
  by (simp_all add: process_line_cases handle_token_fields emit_def split: option.splits)

lemma process_lines_frame:
  "decoder (process_lines parse opts modelId st ls) = decoder st"
  "buffer (process_lines parse opts modelId st ls) = buffer st"
  unfolding process_lines_def
  by (induction ls arbitrary: st) (simp_all add: process_line_frame)

lemma process_lines_append:
  "process_lines parse opts modelId st (xs @ ys) =
     process_lines parse opts modelId (process_lines parse opts modelId st xs) ys"
  by (simp add: process_lines_def)

text \<open>Handling a line commutes with replacing the decoder and the buffer.\<close>

lemma handle_token_reframe:
  "handle_token opts modelId p v (st\<lparr>decoder := d, buffer := b\<rparr>) =
     (handle_token opts modelId p v st)\<lparr>decoder := d, buffer := b\<rparr>"
  by (simp add: handle_token_def emit_def Let_def
      split: option.splits callback_result.splits)

lemma process_line_reframe:
  "process_line parse opts modelId (st\<lparr>decoder := d, buffer := b\<rparr>) line =
     (process_line parse opts modelId st line)\<lparr>decoder := d, buffer := b\<rparr>"
  by (simp add: process_line_cases handle_token_reframe emit_def split: option.splits)

lemma process_lines_reframe:
  "process_lines parse opts modelId (st\<lparr>decoder := d, buffer := b\<rparr>) ls =
     (process_lines parse opts modelId st ls)\<lparr>decoder := d, buffer := b\<rparr>"
  unfolding process_lines_def
  by (induction ls arbitrary: st) (simp_all add: process_line_reframe)

lemma process_chunk_alt:
  "process_chunk dstep parse opts modelId st val =
     (process_lines parse opts modelId st
        (records (buffer st @ stream_text dstep (decoder st) val)))
     \<lparr>decoder := fst (decode dstep (decoder st) val),
      buffer := last (split_nl (buffer st @ stream_text dstep (decoder st) val))\<rparr>"
  by (simp add: process_chunk_def records_def stream_text_def Let_def split_nl_nonempty
      process_lines_reframe split: prod.splits)

lemma process_chunk_append:
  "process_chunk dstep parse opts modelId st (a @ b) =
     process_chunk dstep parse opts modelId (process_chunk dstep parse opts modelId st a) b"
proof -
  define t1 where "t1 = buffer st @ stream_text dstep (decoder st) a"
  define d1 where "d1 = fst (decode dstep (decoder st) a)"
  define t2 where "t2 = stream_text dstep d1 b"
  have cat: "buffer st @ stream_text dstep (decoder st) (a @ b) = t1 @ t2"
    by (simp add: stream_text_append t1_def t2_def d1_def)
  have sp: "split_nl (t1 @ t2) = butlast (split_nl t1) @ split_nl (last (split_nl t1) @ t2)"
    by (rule split_nl_append)
  have ne: "split_nl (last (split_nl t1) @ t2) \<noteq> []"
    by (rule split_nl_nonempty)
  have recs: "records (t1 @ t2) = records t1 @ records (last (split_nl t1) @ t2)"
    using ne by (simp add: records_def sp butlast_append)
  have lst: "last (split_nl (t1 @ t2)) = last (split_nl (last (split_nl t1) @ t2))"
    using ne by (simp add: sp)
  have dec: "fst (decode dstep (decoder st) (a @ b)) = fst (decode dstep d1 b)"
    by (simp add: decode_append d1_def split: prod.splits)
  have one: "process_chunk dstep parse opts modelId st a =
      (process_lines parse opts modelId st (records t1))
        \<lparr>decoder := d1, buffer := last (split_nl t1)\<rparr>"
    by (simp add: process_chunk_alt t1_def d1_def)
  have "process_chunk dstep parse opts modelId st (a @ b) =
      (process_lines parse opts modelId st (records (t1 @ t2)))
        \<lparr>decoder := fst (decode dstep d1 b), buffer := last (split_nl (t1 @ t2))\<rparr>"
    unfolding process_chunk_alt [of _ _ _ _ st "a @ b"] cat dec ..
  also have "\<dots> = process_chunk dstep parse opts modelId
      ((process_lines parse opts modelId st (records t1))
         \<lparr>decoder := d1, buffer := last (split_nl t1)\<rparr>) b"
    by (simp add: process_chunk_alt t2_def [symmetric] recs lst
        process_lines_append process_lines_reframe)
  finally show ?thesis by (simp add: one)
qed

lemma process_chunk_Nil:
  "newline \<notin> set (buffer st) \<Longrightarrow> process_chunk dstep parse opts modelId st [] = st"
  by (simp add: process_chunk_alt stream_text_def records_def split_nl_no_newline
      process_lines_def)

lemma process_chunk_buffer:
  "newline \<notin> set (buffer (process_chunk dstep parse opts modelId st val))"
  by (simp add: process_chunk_alt last_split_nl_no_newline)

lemma foldl_process_chunk:
  "newline \<notin> set (buffer st) \<Longrightarrow>
   foldl (process_chunk dstep parse opts modelId) st cs =
     process_chunk dstep parse opts modelId st (concat cs)"
proof (induction cs arbitrary: st)
  case Nil
  then show ?case by (simp add: process_chunk_Nil)
next
  case (Cons c cs)
  have "foldl (process_chunk dstep parse opts modelId) st (c # cs) =
        process_chunk dstep parse opts modelId (process_chunk dstep parse opts modelId st c) (concat cs)"
    using Cons.IH [OF process_chunk_buffer] by simp
  then show ?case by (simp add: process_chunk_append)
qed

lemma read_loop_chunks:
  "read_loop dstep parse opts modelId None st (chunk_reads lcs @ rest) =
     read_loop dstep parse opts modelId None
       (foldl (process_chunk dstep parse opts modelId) st (map snd lcs)) rest"
  by (induction lcs arbitrary: st)
     (auto simp: chunk_reads_def fires_within_def elapse_def)

section \<open>Lemmas: traces\<close>

lemma observed_append: "observed (a @ b) = observed a @ observed b"
  by (induction a rule: observed.induct) simp_all

lemma callbacks_append: "callbacks (a @ b) = callbacks a @ callbacks b"
  by (simp add: callbacks_def)

lemma callbacks_value_events:
  "callbacks (value_events opts m h acc n v) = value_events opts m h acc n v"
  by (simp add: callbacks_def value_events_def)

lemma observed_value_events: "observed (value_events opts m h acc n v) = [v]"
  by (simp add: value_events_def)

lemma values_events_append:
  "values_events opts m h acc n (xs @ ys) =
     values_events opts m h acc n xs
     @ values_events opts m (h @ values_events opts m h acc n xs)
         (acc @ concat (map fragment_text xs)) (n + length xs) ys"
  by (induction xs arbitrary: h acc n) simp_all

lemma observed_values_events: "observed (values_events opts m h acc n vs) = vs"
  by (induction vs arbitrary: h acc n) (simp_all add: observed_append observed_value_events)

lemma callbacks_values_events:
  "callbacks (values_events opts m h acc n vs) = values_events opts m h acc n vs"
  by (induction vs arbitrary: h acc n)
     (simp_all add: callbacks_append callbacks_value_events, simp add: callbacks_def)

lemma observed_OnError: "observed (map OnError errs) = []"
  by (induction errs) simp_all

lemma observed_callbacks: "observed (callbacks tr) = observed tr"
  by (induction tr rule: observed.induct) (simp_all add: callbacks_def)

lemma consistent_callbacks: "consistent acc n (callbacks tr) = consistent acc n tr"
  by (induction acc n tr rule: consistent.induct) (simp_all add: callbacks_def)

lemma consistent_OnError: "consistent acc n (map OnError errs)"
  by (induction errs) simp_all

lemma consistent_append:
  "consistent acc n (a @ b) \<longleftrightarrow>
     consistent acc n a \<and>
     consistent (acc @ concat (map fragment_text (observed a))) (n + length (observed a)) b"
  by (induction acc n a rule: consistent.induct) auto

lemma consistent_value_events: "consistent acc n (value_events opts m h acc n v)"
  by (simp add: value_events_def aggregate_def)

lemma consistent_values_events: "consistent acc n (values_events opts m h acc n vs)"
  by (induction vs arbitrary: h acc n)
     (simp_all add: consistent_append consistent_value_events observed_value_events)

lemma map_filter_append:
  "List.map_filter f (xs @ ys) = List.map_filter f xs @ List.map_filter f ys"
  by (simp add: List.map_filter_def)

lemma line_value_fragment: "line_value parse line = Some v \<Longrightarrow> fragment v \<noteq> None"
  by (auto simp: line_value_def split: option.splits)

lemma process_line_effect:
  "callbacks (trace (process_line parse opts m st line)) =
     callbacks (trace st)
     @ values_events opts m (callbacks (trace st)) (accumulatedText st) (tokenCount st)
         (List.map_filter (line_value parse) [line])"
  "accumulatedText (process_line parse opts m st line) =
     accumulatedText st @ concat (map fragment_text (List.map_filter (line_value parse) [line]))"
  "tokenCount (process_line parse opts m st line) =
     tokenCount st + length (List.map_filter (line_value parse) [line])"
proof -
  show "callbacks (trace (process_line parse opts m st line)) =
     callbacks (trace st)
     @ values_events opts m (callbacks (trace st)) (accumulatedText st) (tokenCount st)
         (List.map_filter (line_value parse) [line])"
  proof (cases "line_payload line")
    case None
    then show ?thesis
      by (simp add: process_line_cases line_value_def map_filter_simps)
  next
    case (Some p)
    show ?thesis
    proof (cases "parse p")
      case None
      then show ?thesis
        using Some
        by (simp add: process_line_cases line_value_def map_filter_simps emit_def callbacks_def)
    next
      case (Some v)
      obtain evs where
        "trace (handle_token opts m p v st) = trace st @ evs"
        "callbacks evs =
           (if fragment v = None then []
            else value_events opts m (callbacks (trace st)) (accumulatedText st)
                   (tokenCount st) v)"
        using handle_token_trace [of opts m p v st] by blast
      then show ?thesis
        using \<open>line_payload line = Some p\<close> Some
        by (auto simp: process_line_cases line_value_def map_filter_simps callbacks_append
            split: option.splits)
    qed
  qed
  show "accumulatedText (process_line parse opts m st line) =
     accumulatedText st @ concat (map fragment_text (List.map_filter (line_value parse) [line]))"
    by (auto simp: process_line_cases line_value_def map_filter_simps emit_def
        handle_token_fields fragment_text_def split: option.splits)
  show "tokenCount (process_line parse opts m st line) =
     tokenCount st + length (List.map_filter (line_value parse) [line])"
    by (auto simp: process_line_cases line_value_def map_filter_simps emit_def
        handle_token_fields split: option.splits)
qed

lemma process_lines_Cons:
  "process_lines parse opts m st (l # ls) =
     process_lines parse opts m (process_line parse opts m st l) ls"
  by (simp add: process_lines_def)

lemma process_lines_effect:
  "callbacks (trace (process_lines parse opts m st ls)) =
     callbacks (trace st)
     @ values_events opts m (callbacks (trace st)) (accumulatedText st) (tokenCount st)
         (List.map_filter (line_value parse) ls)
   \<and> accumulatedText (process_lines parse opts m st ls) =
     accumulatedText st @ concat (map fragment_text (List.map_filter (line_value parse) ls))
   \<and> tokenCount (process_lines parse opts m st ls) =
     tokenCount st + length (List.map_filter (line_value parse) ls)"
proof (induction ls arbitrary: st)
  case Nil
  then show ?case by (simp add: process_lines_def map_filter_simps)
next
  case (Cons l ls)
  have split: "List.map_filter (line_value parse) (l # ls) =
      List.map_filter (line_value parse) [l] @ List.map_filter (line_value parse) ls"
    using map_filter_append [of "line_value parse" "[l]" ls] by simp
  show ?case
    unfolding process_lines_Cons split
    by (simp add: Cons.IH process_line_effect values_events_append)
qed

lemma process_chunk_init:
  "callbacks (trace (process_chunk dstep parse opts m (init_locals d0) bytes)) =
     values_events opts m [] [] 0 (stream_values dstep d0 parse bytes)"
proof -
  have "callbacks (trace (init_locals d0)) = []"
    by (simp add: init_locals_def callbacks_def)
  then show ?thesis
    by (simp add: process_chunk_alt process_lines_effect stream_values_def)
       (simp add: init_locals_def)
qed

section \<open>Lemmas: the shape of a run\<close>

lemma read_loop_state:
  "read_loop dstep parse opts m tm st reads = (st', ex) \<Longrightarrow>
   \<exists>cs. st' = foldl (process_chunk dstep parse opts m) st cs"
proof (induction reads arbitrary: st tm)
  case Nil
  then have "st' = foldl (process_chunk dstep parse opts m) st []" by simp
  then show ?case by blast
next
  case (Cons lr reads)
  obtain l r where lr: "lr = (l, r)" by (cases lr)
  show ?case
  proof (cases "fires_within tm l")
    case True
    then have "st' = foldl (process_chunk dstep parse opts m) st []"
      using Cons.prems lr by simp
    then show ?thesis by blast
  next
    case False
    show ?thesis
    proof (cases r)
      case (Chunk val)
      then have "read_loop dstep parse opts m (elapse tm l)
           (process_chunk dstep parse opts m st val) reads = (st', ex)"
        using Cons.prems lr False by simp
      from Cons.IH [OF this] obtain cs where
        "st' = foldl (process_chunk dstep parse opts m) st (val # cs)" by auto
      then show ?thesis by blast
    next
      case Done
      then have "st' = foldl (process_chunk dstep parse opts m) st []"
        using Cons.prems lr False by simp
      then show ?thesis by blast
    next
      case (ReadThrows x)
      then have "st' = foldl (process_chunk dstep parse opts m) st []"
        using Cons.prems lr False by simp
      then show ?thesis by blast
    qed
  qed
qed

lemma read_loop_init_trace:
  assumes "read_loop dstep parse opts m tm (init_locals d0) reads = (st', ex)"
  shows "\<exists>toks. callbacks (trace st') = values_events opts m [] [] 0 toks"
proof -
  from read_loop_state [OF assms] obtain cs where
    "st' = foldl (process_chunk dstep parse opts m) (init_locals d0) cs" by blast
  moreover have "newline \<notin> set (buffer (init_locals d0))"
    by (simp add: init_locals_def)
  ultimately have "st' = process_chunk dstep parse opts m (init_locals d0) (concat cs)"
    by (simp add: foldl_process_chunk)
  then show ?thesis by (auto simp: process_chunk_init)
qed

lemma read_loop_latency:
  "map snd reads = map snd reads' \<Longrightarrow>
   read_loop dstep parse opts m None st reads = read_loop dstep parse opts m None st reads'"
proof (induction reads arbitrary: reads' st)
  case Nil
  then show ?case by simp
next
  case (Cons lr reads)
  then obtain lr' rs' where r': "reads' = lr' # rs'" by (cases reads') auto
  obtain l r where lr: "lr = (l, r)" by (cases lr)
  obtain l' where lr': "lr' = (l', r)" using Cons.prems r' lr by (cases lr') auto
  have tl: "map snd reads = map snd rs'" using Cons.prems r' by simp
  show ?case
    using Cons.IH [OF tl] r' lr lr'
    by (simp add: fires_within_def elapse_def split: read_result.splits)
qed

text \<open>The entries a trace can gain before control leaves the try block.\<close>

lemma try_block_shape:
  assumes "try_block timeout dstep d0 parse opts data net = (tr, ex)"
  shows "\<exists>toks errs. callbacks tr = values_events opts (model_id data) [] [] 0 toks @ map OnError errs
           \<and> (errs \<noteq> [] \<longrightarrow> (\<exists>e. ex = Threw (ErrorObj e)))"
proof -
  have early: "\<exists>toks errs. callbacks tr = values_events opts (model_id data) [] [] 0 toks @ map OnError errs
           \<and> (errs \<noteq> [] \<longrightarrow> (\<exists>e. ex = Threw (ErrorObj e)))"
    if "tr = []"
  proof -
    have "callbacks tr = values_events opts (model_id data) [] [] 0 [] @ map OnError []"
      using that by (simp add: callbacks_def)
    then show ?thesis by blast
  qed
  have failed: "\<exists>toks errs. callbacks tr = values_events opts (model_id data) [] [] 0 toks @ map OnError errs
           \<and> (errs \<noteq> [] \<longrightarrow> (\<exists>e. ex = Threw (ErrorObj e)))"
    if "tr = call_onError opts e []" "ex = Threw (ErrorObj e)" for e
  proof -
    have "callbacks tr = values_events opts (model_id data) [] [] 0 []
            @ map OnError (if has_onError opts then [e] else [])"
      using that by (simp add: callbacks_def call_onError_def)
    then show ?thesis using that by blast
  qed
  show ?thesis
  proof (cases "fires_within (setTimeout timeout) (fetch_latency net)")
    case True
    then have "tr = []" using assms by (simp add: try_block_def Let_def)
    then show ?thesis by (rule early)
  next
    case no_abort: False
    show ?thesis
    proof (cases "fetch_result net")
      case (FetchRejects x)
      then have "tr = []" using assms no_abort by (simp add: try_block_def Let_def)
      then show ?thesis by (rule early)
    next
      case (FetchResponds resp)
      show ?thesis
      proof (cases "ok resp")
        case False
        show ?thesis
        proof (cases "text_result resp")
          case (Inl x)
          then have "tr = []"
            using assms no_abort FetchResponds False by (simp add: try_block_def Let_def)
          then show ?thesis by (rule early)
        next
          case (Inr errorText)
          then have "tr = call_onError opts (createError (status resp) errorText) []"
            "ex = Threw (ErrorObj (createError (status resp) errorText))"
            using assms no_abort FetchResponds False by (simp_all add: try_block_def Let_def)
          then show ?thesis by (rule failed)
        qed
      next
        case True
        show ?thesis
        proof (cases "body resp")
          case None
          then have "tr = call_onError opts (new_Error (js ''No response body'')) []"
            "ex = Threw (ErrorObj (new_Error (js ''No response body'')))"
            using assms no_abort FetchResponds True by (simp_all add: try_block_def Let_def)
          then show ?thesis by (rule failed)
        next
          case (Some reads)
          obtain st' where
            loop: "read_loop dstep parse opts (model_id data) None (init_locals d0) reads = (st', ex)"
            and tr: "tr = trace st'"
            using assms no_abort FetchResponds True Some
            by (auto simp: try_block_def Let_def clearTimeout_def split: prod.splits)
          from read_loop_init_trace [OF loop] obtain toks where
            "callbacks tr = values_events opts (model_id data) [] [] 0 toks @ map OnError []"
            using tr by auto
          then show ?thesis by blast
        qed
      qed
    qed
  qed
qed

lemma catch_block_ErrorObj:
  "\<exists>e'. catch_block timeout opts tr (ErrorObj e) =
          \<lparr>calls = call_onError opts e' tr, settled = Rejected (ErrorObj e')\<rparr>"
  by (cases "name e = js ''AbortError''") (simp_all add: catch_block_def Let_def)

lemma inferenceStream_shape:
  "\<exists>toks errs.
     callbacks (calls (inferenceStream timeout dstep d0 parse opts data net)) =
       values_events opts (model_id data) [] [] 0 toks @ map OnError errs
     \<and> (errs \<noteq> [] \<longrightarrow> is_rejected (settled (inferenceStream timeout dstep d0 parse opts data net)))
     \<and> (has_onError opts \<and> is_rejected (settled (inferenceStream timeout dstep d0 parse opts data net))
          \<longrightarrow> errs \<noteq> [])"
proof -
  obtain tr ex where tb: "try_block timeout dstep d0 parse opts data net = (tr, ex)"
    by (cases "try_block timeout dstep d0 parse opts data net")
  from try_block_shape [OF tb] obtain toks errs where
    sh: "callbacks tr = values_events opts (model_id data) [] [] 0 toks @ map OnError errs"
    and er: "errs \<noteq> [] \<longrightarrow> (\<exists>e. ex = Threw (ErrorObj e))" by blast
  let ?r = "inferenceStream timeout dstep d0 parse opts data net"
  show ?thesis
  proof (cases ex)
    case Broke
    then have "calls ?r = tr" "settled ?r = Fulfilled" "errs = []"
      using tb er by (simp_all add: inferenceStream_def)
    then show ?thesis using sh by (metis is_rejected.simps(2))
  next
    case Awaiting
    then have "calls ?r = tr" "settled ?r = Pending" "errs = []"
      using tb er by (simp_all add: inferenceStream_def)
    then show ?thesis using sh by (metis is_rejected.simps(3))
  next
    case (Threw x)
    show ?thesis
    proof (cases x)
      case NonError
      then have "calls ?r = tr" "settled ?r = Fulfilled" "errs = []"
        using tb er Threw by (simp_all add: inferenceStream_def catch_block_def)
      then show ?thesis using sh by (metis is_rejected.simps(2))
    next
      case (ErrorObj e)
      obtain e' where "catch_block timeout opts tr (ErrorObj e) =
          \<lparr>calls = call_onError opts e' tr, settled = Rejected (ErrorObj e')\<rparr>"
        using catch_block_ErrorObj by blast
      then have c: "calls ?r = call_onError opts e' tr"
        and s: "settled ?r = Rejected (ErrorObj e')"
        using tb Threw ErrorObj by (simp_all add: inferenceStream_def)
      have "callbacks (calls ?r) = values_events opts (model_id data) [] [] 0 toks
             @ map OnError (errs @ (if has_onError opts then [e'] else []))"
        using c sh by (simp add: call_onError_def callbacks_def)
      moreover have "is_rejected (settled ?r)" using s by simp
      moreover have "has_onError opts \<longrightarrow> errs @ (if has_onError opts then [e'] else []) \<noteq> []"
        by simp
      ultimately show ?thesis by blast
    qed
  qed
qed

lemma inferenceStream_streaming:
  assumes "\<not> fires_within (setTimeout timeout) (fetch_latency net)"
    "fetch_result net = FetchResponds resp" "ok resp"
    "body resp = Some reads"
  shows "inferenceStream timeout dstep d0 parse opts data net =
     (case read_loop dstep parse opts (model_id data) None (init_locals d0) reads of
        (st, Broke) \<Rightarrow> \<lparr>calls = trace st, settled = Fulfilled\<rparr>
      | (st, Awaiting) \<Rightarrow> \<lparr>calls = trace st, settled = Pending\<rparr>
      | (st, Threw x) \<Rightarrow> catch_block timeout opts (trace st) x)"
  using assms
  by (simp add: inferenceStream_def try_block_def Let_def clearTimeout_def
      split: prod.splits loop_exit.splits)

lemma inferenceStream_clean:
  assumes "\<not> fires_within (setTimeout timeout) (fetch_latency net)"
    "fetch_result net = FetchResponds resp" "ok resp"
    "body resp = Some (chunk_reads lcs @ (l, Done) # rest)"
  shows "inferenceStream timeout dstep d0 parse opts data net =
     \<lparr>calls = trace (process_lines parse opts (model_id data) (init_locals d0)
                (records (stream_text dstep d0 (concat (map snd lcs))))),
      settled = Fulfilled\<rparr>"
proof -
  have nl: "newline \<notin> set (buffer (init_locals d0))"
    by (simp add: init_locals_def)
  have "read_loop dstep parse opts (model_id data) None (init_locals d0)
          (chunk_reads lcs @ (l, Done) # rest) =
        (process_chunk dstep parse opts (model_id data) (init_locals d0) (concat (map snd lcs)),
         Broke)"
    by (simp add: read_loop_chunks foldl_process_chunk [OF nl] fires_within_def)
  moreover have "trace (process_chunk dstep parse opts (model_id data) (init_locals d0)
                   (concat (map snd lcs))) =
      trace (process_lines parse opts (model_id data) (init_locals d0)
                (records (stream_text dstep d0 (concat (map snd lcs)))))"
    by (simp add: process_chunk_alt) (simp add: init_locals_def)
  ultimately show ?thesis
    using inferenceStream_streaming [OF assms(1-4), of dstep d0 parse opts data] by simp
qed

lemma process_lines_trace_grows:
  "\<exists>ext. trace (process_lines parse opts m st ls) = trace st @ ext"
proof (induction ls rule: rev_induct)
  case Nil
  then show ?case by (simp add: process_lines_def)
next
  case (snoc l ls)
  then obtain ext where e: "trace (process_lines parse opts m st ls) = trace st @ ext"
    by blast
  have "\<exists>ext'. trace (process_line parse opts m (process_lines parse opts m st ls) l) =
          trace (process_lines parse opts m st ls) @ ext'"
    using handle_token_trace [of opts m _ _ "process_lines parse opts m st ls"]
    by (auto simp: process_line_cases emit_def split: option.splits)
  then show ?case
    using e by (auto simp: process_lines_append) (simp add: process_lines_def)
qed

lemma error_fired_callbacks: "error_fired (callbacks tr) = error_fired tr"
proof (induction tr)
  case Nil
  then show ?case by (simp add: callbacks_def)
next
  case (Cons ev tr)
  then show ?case by (cases ev) (simp_all add: error_fired_def callbacks_def)
qed

lemma completion_fired_callbacks: "completion_fired (callbacks tr) = completion_fired tr"
proof (induction tr)
  case Nil
  then show ?case by (simp add: callbacks_def)
next
  case (Cons ev tr)
  then show ?case by (cases ev) (simp_all add: completion_fired_def callbacks_def)
qed

lemma error_fired_values_events: "\<not> error_fired (values_events opts m h acc n vs)"
  by (induction vs arbitrary: h acc n) (simp_all add: error_fired_def value_events_def)

lemma delivered_append:
  "delivered opts h (a @ b) \<longleftrightarrow> delivered opts h a \<or> delivered opts (h @ a) b"
  by (induction opts h a rule: delivered.induct) simp_all

lemma delivered_OnError: "\<not> delivered opts h (map OnError errs)"
  by (induction errs arbitrary: h) simp_all

lemma completion_fired_values_events:
  "onComplete opts \<noteq> None \<Longrightarrow>
   completion_fired (values_events opts m h acc n vs) \<longleftrightarrow>
     delivered opts h (values_events opts m h acc n vs)"
  by (induction vs arbitrary: h acc n)
     (auto simp: completion_fired_def delivered_append value_events_def)

lemma error_fired_append: "error_fired (a @ b) \<longleftrightarrow> error_fired a \<or> error_fired b"
  by (simp add: error_fired_def)

lemma completion_fired_append:
  "completion_fired (a @ b) \<longleftrightarrow> completion_fired a \<or> completion_fired b"
  by (simp add: completion_fired_def)

lemma error_fired_OnError: "error_fired (map OnError errs) \<longleftrightarrow> errs \<noteq> []"
  by (cases errs) (simp_all add: error_fired_def)

lemma completion_fired_OnError: "\<not> completion_fired (map OnError errs)"
  by (induction errs) (simp_all add: completion_fired_def)

lemma try_block_body_cong:
  assumes "read_loop dstep parse opts (model_id data) None (init_locals d0) reads =
           read_loop dstep parse opts (model_id data) None (init_locals d0) reads'"
  shows "try_block timeout dstep d0 parse opts data
       \<lparr>fetch_latency = fl,
        fetch_result = FetchResponds \<lparr>status = s, text_result = tx, body = Some reads\<rparr>\<rparr> =
     try_block timeout dstep d0 parse opts data
       \<lparr>fetch_latency = fl,
        fetch_result = FetchResponds \<lparr>status = s, text_result = tx, body = Some reads'\<rparr>\<rparr>"
  using assms by (simp add: try_block_def Let_def clearTimeout_def ok_def split: sum.splits)

lemma inferenceStream_consistent:
  "consistent [] 0 (calls (inferenceStream timeout dstep d0 parse opts data net))"
proof -
  let ?r = "inferenceStream timeout dstep d0 parse opts data net"
  obtain toks errs where
    sh: "callbacks (calls ?r) = values_events opts (model_id data) [] [] 0 toks @ map OnError errs"
    using inferenceStream_shape [of timeout dstep d0 parse opts data net] by blast
  have "consistent [] 0 (callbacks (calls ?r))"
    by (simp add: sh consistent_append consistent_values_events consistent_OnError)
  then show ?thesis by (simp add: consistent_callbacks)
qed

lemma read_loop_instant:
  "read_loop dstep parse opts m None st (map (\<lambda>(l, r). (0, r)) reads) =
   read_loop dstep parse opts m None st reads"
  by (rule read_loop_latency) (simp add: comp_def case_prod_unfold)

lemma filter_OnComplete_callbacks:
  "filter is_OnComplete (callbacks tr) = filter is_OnComplete tr"
proof (induction tr)
  case Nil
  then show ?case by (simp add: callbacks_def)
next
  case (Cons ev tr)
  then show ?case by (cases ev) (simp_all add: callbacks_def)
qed

lemma filter_OnComplete_values_events:
  "\<not> list_ex flagged vs \<Longrightarrow> filter is_OnComplete (values_events opts m h acc n vs) = []"
  by (induction vs arbitrary: h acc n) (simp_all add: value_events_def)

lemma filter_flagged_none: "\<not> list_ex flagged vs \<Longrightarrow> filter flagged vs = []"
  by (induction vs) simp_all

section \<open>Lemmas: values and clean runs\<close>

lemma of_token_reads:
  "fragment (of_token t) = Some (token t)"
  "fragment_text (of_token t) = token t"
  "flagged (of_token t) = complete t"
  "as_token (of_token t) = Some t"
  by (simp_all add: fragment_def fragment_text_def flagged_def as_token_def of_token_def js_def)

lemma clean_run_callbacks:
  assumes "\<not> fires_within (setTimeout timeout) (fetch_latency net)"
    and "fetch_result net = FetchResponds resp" and "ok resp"
    and "body resp = Some (chunk_reads lcs @ (l, Done) # rest)"
  shows "callbacks (calls (inferenceStream timeout dstep d0 parse opts data net)) =
           values_events opts (model_id data) [] [] 0
             (stream_values dstep d0 parse (concat (map snd lcs)))"
proof -
  have "callbacks (trace (init_locals d0)) = []"
    by (simp add: init_locals_def callbacks_def)
  then show ?thesis
    using process_lines_effect [of parse opts "model_id data" "init_locals d0"
        "records (stream_text dstep d0 (concat (map snd lcs)))"]
    by (simp add: inferenceStream_clean [OF assms] stream_values_def)
       (simp add: init_locals_def)
qed

text \<open>
  An \<^verbatim>\<open>onToken\<close> that throws on the completion-flagged value: the exception is caught and
  logged with the payload, \<^verbatim>\<open>onComplete\<close> is not called, and the promise is fulfilled.
\<close>
lemma throwing_onToken_skips_onComplete:
  "inferenceStream 100 ascii_step () demo_parse throwing_callbacks demo_request
     (ok_response [(5, Chunk (bytes_of (data_line payload_Hi @ data_line payload_bang))),
                   (5, Done)]) =
   \<lparr>calls = [OnToken tok_Hi (js ''Hi'') 1, OnToken tok_bang (js ''Hi!'') 2,
             ConsoleError (js payload_bang)],
    settled = Fulfilled\<rparr>"
  by code_simp

section \<open>Lemmas: the registry\<close>

lemma findOne_matches: "findOne r options = Some model \<Longrightarrow> matches options model"
proof -
  assume "findOne r options = Some model"
  then have "model \<in> set (find_models r options)"
    by (auto simp: findOne_def split: list.splits)
  then show ?thesis by (simp add: find_models_def)
qed

lemma findOne_in_catalog:
  "findOne r options = Some model \<Longrightarrow> model \<in> set (list_entries r)"
proof -
  assume "findOne r options = Some model"
  then have "model \<in> set (find_models r options)"
    by (auto simp: findOne_def split: list.splits)
  then show ?thesis by (simp add: find_models_def)
qed

lemma js_chat_nonempty: "js ''chat'' \<noteq> []"
  by (simp add: js_def)

section \<open>Terminal callbacks\<close>

text \<open>
  Claim C1, as the code has it. With both callbacks supplied, \<^verbatim>\<open>onError\<close> is called
  exactly when the returned promise rejects, and \<^verbatim>\<open>onComplete\<close> is called exactly when a
  completion-flagged value has been handed to an \<^verbatim>\<open>onToken\<close> call that returned: a call
  that throws ends the inner \<^verbatim>\<open>try\<close> block before \<^verbatim>\<open>onComplete\<close> is reached. On a response
  that is read to its end the callbacks are those of the values of the stream and the
  promise is fulfilled. Hence neither of the two fires when the byte source closes
  before a completion-flagged value was delivered, and both fire when the call fails
  after one was.
\<close>
theorem terminal_callbacks:
  assumes "onComplete opts = Some f" and "has_onError opts"
  shows "(error_fired (calls (inferenceStream timeout dstep d0 parse opts data net)) \<longleftrightarrow>
            is_rejected (settled (inferenceStream timeout dstep d0 parse opts data net)))
       \<and> (completion_fired (calls (inferenceStream timeout dstep d0 parse opts data net)) \<longleftrightarrow>
            completion_delivered opts
              (calls (inferenceStream timeout dstep d0 parse opts data net)))
       \<and> (\<not> fires_within (setTimeout timeout) (fetch_latency net)
            \<and> fetch_result net = FetchResponds resp \<and> ok resp
            \<and> body resp = Some (chunk_reads lcs @ (l, Done) # rest) \<longrightarrow>
          callbacks (calls (inferenceStream timeout dstep d0 parse opts data net)) =
            values_events opts (model_id data) [] [] 0
              (stream_values dstep d0 parse (concat (map snd lcs)))
          \<and> settled (inferenceStream timeout dstep d0 parse opts data net) = Fulfilled)"
proof -
  let ?r = "inferenceStream timeout dstep d0 parse opts data net"
  obtain vs errs where
    sh: "callbacks (calls ?r) = values_events opts (model_id data) [] [] 0 vs @ map OnError errs"
    and e1: "errs \<noteq> [] \<longrightarrow> is_rejected (settled ?r)"
    and e2: "has_onError opts \<and> is_rejected (settled ?r) \<longrightarrow> errs \<noteq> []"
    using inferenceStream_shape [of timeout dstep d0 parse opts data net] by blast
  have oc: "onComplete opts \<noteq> None" using assms(1) by simp
  have "error_fired (calls ?r) = error_fired (callbacks (calls ?r))"
    by (simp add: error_fired_callbacks)
  also have "\<dots> \<longleftrightarrow> errs \<noteq> []"
    by (simp add: sh error_fired_append error_fired_values_events error_fired_OnError)
  finally have a: "error_fired (calls ?r) \<longleftrightarrow> is_rejected (settled ?r)"
    using e1 e2 assms by blast
  have "completion_fired (calls ?r) = completion_fired (callbacks (calls ?r))"
    by (simp add: completion_fired_callbacks)
  also have "\<dots> \<longleftrightarrow> delivered opts [] (values_events opts (model_id data) [] [] 0 vs)"
    using completion_fired_values_events [OF oc]
    by (simp add: sh completion_fired_append completion_fired_OnError)
  also have "\<dots> \<longleftrightarrow> delivered opts [] (callbacks (calls ?r))"
    by (simp add: sh delivered_append delivered_OnError)
  finally have b: "completion_fired (calls ?r) \<longleftrightarrow> completion_delivered opts (calls ?r)"
    by (simp add: completion_delivered_def)
  have c: "callbacks (calls ?r) =
            values_events opts (model_id data) [] [] 0
              (stream_values dstep d0 parse (concat (map snd lcs)))
          \<and> settled ?r = Fulfilled"
    if "\<not> fires_within (setTimeout timeout) (fetch_latency net)"
      "fetch_result net = FetchResponds resp" "ok resp"
      "body resp = Some (chunk_reads lcs @ (l, Done) # rest)"
    using clean_run_callbacks [OF that, of dstep d0 parse opts data]
      inferenceStream_clean [OF that, of dstep d0 parse opts data] by simp
  from a b c show ?thesis by blast
qed

text \<open>The statement above at a concrete input.\<close>
theorem terminal_callbacks_witness:
  "(error_fired (calls (inferenceStream 100 ascii_step () demo_parse both_callbacks
        demo_request (ok_response (chunk_reads [(5, bytes_of (data_line payload_Hi)),
                                   (5, bytes_of (data_line payload_bang))] @ [(5, Done)]))))
      \<longleftrightarrow> is_rejected (settled (inferenceStream 100 ascii_step () demo_parse both_callbacks
        demo_request (ok_response (chunk_reads [(5, bytes_of (data_line payload_Hi)),
                                   (5, bytes_of (data_line payload_bang))] @ [(5, Done)])))))
   \<and> (completion_fired (calls (inferenceStream 100 ascii_step () demo_parse both_callbacks
        demo_request (ok_response (chunk_reads [(5, bytes_of (data_line payload_Hi)),
                                   (5, bytes_of (data_line payload_bang))] @ [(5, Done)]))))
      \<longleftrightarrow> completion_delivered both_callbacks
        (calls (inferenceStream 100 ascii_step () demo_parse both_callbacks
        demo_request (ok_response (chunk_reads [(5, bytes_of (data_line payload_Hi)),
                                   (5, bytes_of (data_line payload_bang))] @ [(5, Done)])))))
   \<and> callbacks (calls (inferenceStream 100 ascii_step () demo_parse both_callbacks
        demo_request (ok_response (chunk_reads [(5, bytes_of (data_line payload_Hi)),
                                   (5, bytes_of (data_line payload_bang))] @ [(5, Done)])))) =
       values_events both_callbacks (model_id demo_request) [] [] 0 [tok_Hi, tok_bang]
   \<and> settled (inferenceStream 100 ascii_step () demo_parse both_callbacks
        demo_request (ok_response (chunk_reads [(5, bytes_of (data_line payload_Hi)),
                                   (5, bytes_of (data_line payload_bang))] @ [(5, Done)]))) =
       Fulfilled"
proof -
  let ?lcs = "[(5::nat, bytes_of (data_line payload_Hi)), (5, bytes_of (data_line payload_bang))]"
  let ?resp = "\<lparr>status = 200, text_result = Inr [],
                body = Some (chunk_reads ?lcs @ [(5, Done)])\<rparr>"
  have c: "onComplete both_callbacks = Some (\<lambda>h res. Returns)"
    and e: "has_onError both_callbacks"
    by (simp_all add: both_callbacks_def)
  have h1: "\<not> fires_within (setTimeout 100)
              (fetch_latency (ok_response (chunk_reads ?lcs @ [(5, Done)])))"
    by (simp add: ok_response_def setTimeout_def fires_within_def)
  have h2: "fetch_result (ok_response (chunk_reads ?lcs @ [(5, Done)])) = FetchResponds ?resp"
    by (simp add: ok_response_def)
  have h3: "ok ?resp" by (simp add: ok_def)
  have h4: "body ?resp = Some (chunk_reads ?lcs @ (5, Done) # [])" by simp
  have t: "stream_values ascii_step () demo_parse (concat (map snd ?lcs)) = [tok_Hi, tok_bang]"
    by code_simp
  from terminal_callbacks
      [OF c e, where timeout = 100 and dstep = ascii_step and ?d0.0 = "()" and parse = demo_parse
         and data = demo_request and net = "ok_response (chunk_reads ?lcs @ [(5, Done)])"
         and resp = ?resp and lcs = ?lcs and l = 5 and rest = "[]"]
    h1 h2 h3 h4 t
  show ?thesis by simp
qed

text \<open>
  Neither and both. The byte source delivers one value without the completion flag and
  closes: the promise is fulfilled and neither \<^verbatim>\<open>onComplete\<close> nor \<^verbatim>\<open>onError\<close> has been
  called. The byte source delivers a completion-flagged value and the next
  \<^verbatim>\<open>read()\<close> rejects: \<^verbatim>\<open>onComplete\<close> and \<^verbatim>\<open>onError\<close> have both been called.
\<close>
theorem neither_or_both_terminal_callbacks:
  "inferenceStream 100 ascii_step () demo_parse both_callbacks demo_request
     \<lparr>fetch_latency = 10,
      fetch_result = FetchResponds
        \<lparr>status = 200, text_result = Inr [],
         body = Some [(5, Chunk (bytes_of (data_line payload_Hi))), (5, Done)]\<rparr>\<rparr> =
   \<lparr>calls = [OnToken tok_Hi (js ''Hi'') 1], settled = Fulfilled\<rparr>
   \<and> \<not> completion_fired [OnToken tok_Hi (js ''Hi'') 1]
   \<and> \<not> error_fired [OnToken tok_Hi (js ''Hi'') 1]
   \<and> inferenceStream 100 ascii_step () demo_parse both_callbacks demo_request
     \<lparr>fetch_latency = 10,
      fetch_result = FetchResponds
        \<lparr>status = 200, text_result = Inr [],
         body = Some [(5, Chunk (bytes_of (data_line payload_bang))),
                      (5, ReadThrows (ErrorObj (new_Error (js ''terminated''))))]\<rparr>\<rparr> =
   \<lparr>calls = [OnToken tok_bang (js ''!'') 1,
             OnComplete \<lparr>response_model_id = js ''mistral'', response_text = js ''!'',
                         tokens_generated = 1, finish_reason = js ''stop''\<rparr>,
             OnError (new_Error (js ''terminated''))],
    settled = Rejected (ErrorObj (new_Error (js ''terminated'')))\<rparr>"
  by code_simp

section \<open>Timeout\<close>

text \<open>
  Claim C2, as the code has it. When the configured timeout runs out while
  \<^verbatim>\<open>fetch\<close> is still pending, \<^verbatim>\<open>onError\<close> (when supplied) is called once with the
  error \<^verbatim>\<open>Stream timeout after <timeout>ms\<close>, the promise rejects with that error, and
  neither \<^verbatim>\<open>onToken\<close> nor \<^verbatim>\<open>onComplete\<close> is called. Once \<^verbatim>\<open>fetch\<close> has settled
  the timer is cleared: the result of the call is the one of the same exchange with every
  read answered at once, so no timeout fires while the body is being read.
\<close>
theorem timeout_connecting_only:
  "(timeout \<le> fetch_latency net \<longrightarrow>
      inferenceStream timeout dstep d0 parse opts data net =
        \<lparr>calls = call_onError opts
                   (new_Error (js ''Stream timeout after '' @ show_nat timeout @ js ''ms'')) [],
         settled = Rejected (ErrorObj
                   (new_Error (js ''Stream timeout after '' @ show_nat timeout @ js ''ms'')))\<rparr>)
   \<and> inferenceStream timeout dstep d0 parse opts data (instant_reads net) =
       inferenceStream timeout dstep d0 parse opts data net"
proof
  show "timeout \<le> fetch_latency net \<longrightarrow>
      inferenceStream timeout dstep d0 parse opts data net =
        \<lparr>calls = call_onError opts
                   (new_Error (js ''Stream timeout after '' @ show_nat timeout @ js ''ms'')) [],
         settled = Rejected (ErrorObj
                   (new_Error (js ''Stream timeout after '' @ show_nat timeout @ js ''ms'')))\<rparr>"
    by (simp add: inferenceStream_def try_block_def catch_block_def Let_def setTimeout_def
        fires_within_def abort_error_def)
next
  obtain fl fr where net: "net = \<lparr>fetch_latency = fl, fetch_result = fr\<rparr>"
    by (cases net) simp
  show "inferenceStream timeout dstep d0 parse opts data (instant_reads net) =
       inferenceStream timeout dstep d0 parse opts data net"
  proof (cases fr)
    case (FetchRejects x)
    then show ?thesis by (simp add: net instant_reads_def)
  next
    case (FetchResponds resp)
    obtain s tx b where resp: "resp = \<lparr>status = s, text_result = tx, body = b\<rparr>"
      by (cases resp) simp
    show ?thesis
    proof (cases b)
      case None
      then show ?thesis by (simp add: net FetchResponds resp instant_reads_def)
    next
      case (Some reads)
      have "try_block timeout dstep d0 parse opts data
              \<lparr>fetch_latency = fl,
               fetch_result = FetchResponds
                 \<lparr>status = s, text_result = tx,
                  body = Some (map (\<lambda>(l, r). (0, r)) reads)\<rparr>\<rparr> =
            try_block timeout dstep d0 parse opts data
              \<lparr>fetch_latency = fl,
               fetch_result = FetchResponds
                 \<lparr>status = s, text_result = tx, body = Some reads\<rparr>\<rparr>"
        by (rule try_block_body_cong [OF read_loop_instant])
      then show ?thesis
        by (simp add: net FetchResponds resp Some instant_reads_def inferenceStream_def)
    qed
  qed
qed

text \<open>The statement above at a concrete input.\<close>
theorem timeout_connecting_only_witness:
  "(100::nat) \<le> fetch_latency \<lparr>fetch_latency = 250, fetch_result = FetchRejects NonError\<rparr>
   \<and> inferenceStream 100 ascii_step () demo_parse both_callbacks demo_request
       \<lparr>fetch_latency = 250, fetch_result = FetchRejects NonError\<rparr> =
     \<lparr>calls = [OnError (new_Error (js ''Stream timeout after 100ms''))],
      settled = Rejected (ErrorObj (new_Error (js ''Stream timeout after 100ms'')))\<rparr>"
proof -
  have h: "(100::nat) \<le> fetch_latency \<lparr>fetch_latency = 250, fetch_result = FetchRejects NonError\<rparr>"
    by simp
  have m: "js ''Stream timeout after '' @ show_nat 100 @ js ''ms'' = js ''Stream timeout after 100ms''"
    by code_simp
  have "inferenceStream 100 ascii_step () demo_parse both_callbacks demo_request
       \<lparr>fetch_latency = 250, fetch_result = FetchRejects NonError\<rparr> =
     \<lparr>calls = call_onError both_callbacks
                 (new_Error (js ''Stream timeout after '' @ show_nat 100 @ js ''ms'')) [],
      settled = Rejected (ErrorObj
                 (new_Error (js ''Stream timeout after '' @ show_nat 100 @ js ''ms'')))\<rparr>"
    using timeout_connecting_only [of 100
        "\<lparr>fetch_latency = 250, fetch_result = FetchRejects NonError\<rparr>"
        ascii_step "()" demo_parse both_callbacks demo_request] h
    by blast
  then show ?thesis
    using h by (simp add: m call_onError_def both_callbacks_def)
qed

text \<open>
  A timeout of 100 ms runs out after the first token (at 60 ms) and long before the
  completion-flagged token arrives (at 560 ms): both tokens are delivered,
  \<^verbatim>\<open>onComplete\<close> is called, \<^verbatim>\<open>onError\<close> is not, and the promise is fulfilled.
\<close>
theorem timeout_elapsed_mid_stream:
  "(10::nat) + 50 < 100 \<and> (100::nat) \<le> 10 + 50 + 500
   \<and> inferenceStream 100 ascii_step () demo_parse both_callbacks demo_request
     \<lparr>fetch_latency = 10,
      fetch_result = FetchResponds
        \<lparr>status = 200, text_result = Inr [],
         body = Some [(50, Chunk (bytes_of (data_line payload_Hi))),
                      (500, Chunk (bytes_of (data_line payload_bang))),
                      (5, Done)]\<rparr>\<rparr> =
   \<lparr>calls = [OnToken tok_Hi (js ''Hi'') 1, OnToken tok_bang (js ''Hi!'') 2,
             OnComplete \<lparr>response_model_id = js ''mistral'', response_text = js ''Hi!'',
                         tokens_generated = 2, finish_reason = js ''stop''\<rparr>],
    settled = Fulfilled\<rparr>"
  by code_simp

section \<open>Completion\<close>

text \<open>
  Claim C3, as the code has it. The values of a stream are those of its data records
  that end in a line feed, whose payload parses and whose fragment can be read; a last
  record without a line feed is never handled. On a response that is read to its end,
  every value of the stream is handed to \<^verbatim>\<open>onToken\<close>, and each completion-flagged one
  whose \<^verbatim>\<open>onToken\<close> call returns is followed at once by \<^verbatim>\<open>onComplete\<close>; reading does not
  stop at a completion-flagged value. When the stream carries exactly one
  completion-flagged value, as its last value, and \<^verbatim>\<open>onToken\<close> returns on it, exactly one
  completion-flagged value is observed, \<^verbatim>\<open>onComplete\<close> is called once, and that call is
  the last callback.
\<close>
theorem completion_not_terminal:
  assumes "\<not> fires_within (setTimeout timeout) (fetch_latency net)"
    and "fetch_result net = FetchResponds resp"
    and "ok resp" and "body resp = Some (chunk_reads lcs @ (l, Done) # rest)"
  shows "callbacks (calls (inferenceStream timeout dstep d0 parse opts data net)) =
           values_events opts (model_id data) [] [] 0
             (stream_values dstep d0 parse (concat (map snd lcs)))
     \<and> observed (calls (inferenceStream timeout dstep d0 parse opts data net)) =
           stream_values dstep d0 parse (concat (map snd lcs))
     \<and> (stream_values dstep d0 parse (concat (map snd lcs)) = vs @ [v] \<and> flagged v
          \<and> \<not> list_ex flagged vs \<and> (\<forall>h. onToken opts h v = Returns)
          \<and> onComplete opts = Some f \<longrightarrow>
        length (filter flagged
                  (observed (calls (inferenceStream timeout dstep d0 parse opts data net)))) = 1
        \<and> length (filter is_OnComplete
                  (calls (inferenceStream timeout dstep d0 parse opts data net))) = 1
        \<and> last (callbacks (calls (inferenceStream timeout dstep d0 parse opts data net))) =
            OnComplete (aggregate (model_id data) (concat (map fragment_text (vs @ [v])))
                         (length (vs @ [v]))))"
proof -
  let ?r = "inferenceStream timeout dstep d0 parse opts data net"
  let ?vals = "stream_values dstep d0 parse (concat (map snd lcs))"
  have cb: "callbacks (calls ?r) = values_events opts (model_id data) [] [] 0 ?vals"
    by (rule clean_run_callbacks [OF assms])
  have "observed (calls ?r) = observed (callbacks (calls ?r))"
    by (simp add: observed_callbacks)
  then have ob: "observed (calls ?r) = ?vals"
    by (simp add: cb observed_values_events)
  have fin: "length (filter flagged (observed (calls ?r))) = 1
        \<and> length (filter is_OnComplete (calls ?r)) = 1
        \<and> last (callbacks (calls ?r)) =
            OnComplete (aggregate (model_id data) (concat (map fragment_text (vs @ [v])))
                         (length (vs @ [v])))"
    if h: "?vals = vs @ [v]" "flagged v" "\<not> list_ex flagged vs"
      "\<forall>h. onToken opts h v = Returns" "onComplete opts = Some f"
  proof -
    have cb2: "callbacks (calls ?r) =
        values_events opts (model_id data) [] [] 0 vs
        @ [OnToken v (concat (map fragment_text vs) @ fragment_text v) (length vs + 1),
           OnComplete (aggregate (model_id data)
                         (concat (map fragment_text vs) @ fragment_text v) (length vs + 1))]"
      using h by (simp add: cb values_events_append value_events_def)
    have "filter is_OnComplete (calls ?r) = filter is_OnComplete (callbacks (calls ?r))"
      by (simp add: filter_OnComplete_callbacks)
    then have c: "length (filter is_OnComplete (calls ?r)) = 1"
      using h(3) by (simp add: cb2 filter_OnComplete_values_events)
    show ?thesis
      using h(2,3) c by (simp add: ob h(1) filter_flagged_none cb2)
  qed
  from cb ob fin show ?thesis by blast
qed

text \<open>The statement above at a concrete input.\<close>
theorem completion_not_terminal_witness:
  "callbacks (calls (inferenceStream 100 ascii_step () demo_parse both_callbacks demo_request
       (ok_response (chunk_reads [(5, bytes_of (data_line payload_Hi)),
                                  (5, bytes_of (data_line payload_bang))] @ [(5, Done)])))) =
     values_events both_callbacks (model_id demo_request) [] [] 0 [tok_Hi, tok_bang]
   \<and> observed (calls (inferenceStream 100 ascii_step () demo_parse both_callbacks demo_request
       (ok_response (chunk_reads [(5, bytes_of (data_line payload_Hi)),
                                  (5, bytes_of (data_line payload_bang))] @ [(5, Done)])))) =
     [tok_Hi, tok_bang]
   \<and> length (filter flagged (observed (calls
       (inferenceStream 100 ascii_step () demo_parse both_callbacks demo_request
       (ok_response (chunk_reads [(5, bytes_of (data_line payload_Hi)),
                                  (5, bytes_of (data_line payload_bang))] @ [(5, Done)])))))) = 1
   \<and> length (filter is_OnComplete (calls
       (inferenceStream 100 ascii_step () demo_parse both_callbacks demo_request
       (ok_response (chunk_reads [(5, bytes_of (data_line payload_Hi)),
                                  (5, bytes_of (data_line payload_bang))] @ [(5, Done)]))))) = 1
   \<and> last (callbacks (calls
       (inferenceStream 100 ascii_step () demo_parse both_callbacks demo_request
       (ok_response (chunk_reads [(5, bytes_of (data_line payload_Hi)),
                                  (5, bytes_of (data_line payload_bang))] @ [(5, Done)]))))) =
       OnComplete (aggregate (model_id demo_request)
                     (concat (map fragment_text ([tok_Hi] @ [tok_bang])))
                     (length ([tok_Hi] @ [tok_bang])))"
proof -
  let ?lcs = "[(5::nat, bytes_of (data_line payload_Hi)), (5, bytes_of (data_line payload_bang))]"
  let ?resp = "\<lparr>status = 200, text_result = Inr [],
                body = Some (chunk_reads ?lcs @ [(5, Done)])\<rparr>"
  have h1: "\<not> fires_within (setTimeout 100)
              (fetch_latency (ok_response (chunk_reads ?lcs @ [(5, Done)])))"
    by (simp add: ok_response_def setTimeout_def fires_within_def)
  have h2: "fetch_result (ok_response (chunk_reads ?lcs @ [(5, Done)])) = FetchResponds ?resp"
    by (simp add: ok_response_def)
  have h3: "ok ?resp" by (simp add: ok_def)
  have h4: "body ?resp = Some (chunk_reads ?lcs @ (5, Done) # [])" by simp
  have t: "stream_values ascii_step () demo_parse (concat (map snd ?lcs)) = [tok_Hi] @ [tok_bang]"
    by code_simp
  have c: "flagged tok_bang" "\<not> list_ex flagged [tok_Hi]"
    by code_simp+
  have d: "\<forall>h. onToken both_callbacks h tok_bang = Returns"
    "onComplete both_callbacks = Some (\<lambda>h res. Returns)"
    by (simp_all add: both_callbacks_def)
  let ?r = "inferenceStream 100 ascii_step () demo_parse both_callbacks demo_request
       (ok_response (chunk_reads ?lcs @ [(5, Done)]))"
  note th = completion_not_terminal
      [where lcs = ?lcs and l = 5 and rest = "[]" and dstep = ascii_step and ?d0.0 = "()"
         and parse = demo_parse and opts = both_callbacks and data = demo_request
         and vs = "[tok_Hi]" and v = tok_bang and timeout = 100
         and f = "\<lambda>h res. Returns",
       OF h1 h2 h3 h4]
  from th have "callbacks (calls ?r) = values_events both_callbacks (model_id demo_request)
      [] [] 0 (stream_values ascii_step () demo_parse (concat (map snd ?lcs)))"
    by blast
  then have a: "callbacks (calls ?r) =
      values_events both_callbacks (model_id demo_request) [] [] 0 [tok_Hi, tok_bang]"
    by (simp only: t append_Cons append_Nil)
  from th have "observed (calls ?r) =
      stream_values ascii_step () demo_parse (concat (map snd ?lcs))"
    by blast
  then have b: "observed (calls ?r) = [tok_Hi, tok_bang]"
    by (simp only: t append_Cons append_Nil)
  from th t c d have r: "length (filter flagged (observed (calls ?r))) = 1
      \<and> length (filter is_OnComplete (calls ?r)) = 1
      \<and> last (callbacks (calls ?r)) =
          OnComplete (aggregate (model_id demo_request)
                        (concat (map fragment_text ([tok_Hi] @ [tok_bang])))
                        (length ([tok_Hi] @ [tok_bang])))"
    by blast
  from a b r show ?thesis by blast
qed

text \<open>
  Two completion-flagged tokens in one stream: both are observed, \<^verbatim>\<open>onComplete\<close> is
  called twice, and a token is decoded and delivered after the first completion.
\<close>
theorem two_completions_observed:
  "inferenceStream 100 ascii_step () demo_parse both_callbacks demo_request
     \<lparr>fetch_latency = 10,
      fetch_result = FetchResponds
        \<lparr>status = 200, text_result = Inr [],
         body = Some [(5, Chunk (bytes_of (data_line payload_bang @ data_line payload_end))),
                      (5, Done)]\<rparr>\<rparr> =
   \<lparr>calls = [OnToken tok_bang (js ''!'') 1,
             OnComplete \<lparr>response_model_id = js ''mistral'', response_text = js ''!'',
                         tokens_generated = 1, finish_reason = js ''stop''\<rparr>,
             OnToken tok_end (js ''!.'') 2,
             OnComplete \<lparr>response_model_id = js ''mistral'', response_text = js ''!.'',
                         tokens_generated = 2, finish_reason = js ''stop''\<rparr>],
    settled = Fulfilled\<rparr>"
  by code_simp

section \<open>Split invariance\<close>

text \<open>
  Claim C4. However a byte sequence is cut into chunks, feeding the chunks one by one
  leaves the read loop in the state that the whole sequence fed as one chunk leaves it
  in (decoder, buffer, accumulated text, count and trace), and the call of
  \<^verbatim>\<open>inferenceStream\<close> ends with the same callbacks and the same settlement, whatever
  follows the chunks.
\<close>
theorem split_invariance:
  "foldl (process_chunk dstep parse opts m) (init_locals d0) cs =
     process_chunk dstep parse opts m (init_locals d0) (concat cs)
   \<and> inferenceStream timeout dstep d0 parse opts data
       \<lparr>fetch_latency = fl,
        fetch_result = FetchResponds
          \<lparr>status = s, text_result = tx, body = Some (chunk_reads lcs @ rest)\<rparr>\<rparr> =
     inferenceStream timeout dstep d0 parse opts data
       \<lparr>fetch_latency = fl,
        fetch_result = FetchResponds
          \<lparr>status = s, text_result = tx,
           body = Some ((l, Chunk (concat (map snd lcs))) # rest)\<rparr>\<rparr>"
proof -
  have nl: "newline \<notin> set (buffer (init_locals d0))"
    by (simp add: init_locals_def)
  have a: "foldl (process_chunk dstep parse opts m) (init_locals d0) cs =
     process_chunk dstep parse opts m (init_locals d0) (concat cs)" for m cs
    by (rule foldl_process_chunk [OF nl])
  have rl: "read_loop dstep parse opts (model_id data) None (init_locals d0) (chunk_reads lcs @ rest) =
        read_loop dstep parse opts (model_id data) None (init_locals d0)
          ((l, Chunk (concat (map snd lcs))) # rest)"
    by (simp add: read_loop_chunks a fires_within_def elapse_def)
  have "try_block timeout dstep d0 parse opts data
       \<lparr>fetch_latency = fl,
        fetch_result = FetchResponds
          \<lparr>status = s, text_result = tx, body = Some (chunk_reads lcs @ rest)\<rparr>\<rparr> =
     try_block timeout dstep d0 parse opts data
       \<lparr>fetch_latency = fl,
        fetch_result = FetchResponds
          \<lparr>status = s, text_result = tx,
           body = Some ((l, Chunk (concat (map snd lcs))) # rest)\<rparr>\<rparr>"
    by (rule try_block_body_cong [OF rl])
  then show ?thesis using a by (simp add: inferenceStream_def)
qed

text \<open>A record cut in the middle of its payload.\<close>
theorem split_invariance_witness:
  "inferenceStream 100 ascii_step () demo_parse both_callbacks demo_request
       \<lparr>fetch_latency = 10,
        fetch_result = FetchResponds
          \<lparr>status = 200, text_result = Inr [],
           body = Some (chunk_reads [(5, bytes_of ''data: {\"tok''),
                                     (5, bytes_of (drop 11 (data_line payload_bang)))]
                        @ [(5, Done)])\<rparr>\<rparr> =
   \<lparr>calls = [OnToken tok_bang (js ''!'') 1,
             OnComplete \<lparr>response_model_id = js ''mistral'', response_text = js ''!'',
                         tokens_generated = 1, finish_reason = js ''stop''\<rparr>],
    settled = Fulfilled\<rparr>"
proof -
  have "inferenceStream 100 ascii_step () demo_parse both_callbacks demo_request
       \<lparr>fetch_latency = 10,
        fetch_result = FetchResponds
          \<lparr>status = 200, text_result = Inr [],
           body = Some ((0, Chunk (concat (map snd
                     [(5::nat, bytes_of ''data: {\"tok''),
                      (5, bytes_of (drop 11 (data_line payload_bang)))]))) # [(5, Done)])\<rparr>\<rparr> =
   \<lparr>calls = [OnToken tok_bang (js ''!'') 1,
             OnComplete \<lparr>response_model_id = js ''mistral'', response_text = js ''!'',
                         tokens_generated = 1, finish_reason = js ''stop''\<rparr>],
    settled = Fulfilled\<rparr>"
    by code_simp
  then show ?thesis
    using split_invariance [where timeout = 100 and dstep = ascii_step and ?d0.0 = "()"
        and parse = demo_parse and opts = both_callbacks and data = demo_request and fl = 10
        and s = 200 and tx = "Inr []" and l = 0 and rest = "[(5, Done)]"
        and lcs = "[(5, bytes_of ''data: {\"tok''),
                    (5, bytes_of (drop 11 (data_line payload_bang)))]"]
    by simp
qed

section \<open>The aggregate result\<close>

text \<open>
  Claim C5. On a response that is read to its end and whose last value is
  completion-flagged, with \<^verbatim>\<open>onToken\<close> returning on that value, the callbacks are those
  of the values before it, then the \<^verbatim>\<open>onToken\<close> call for it, then \<^verbatim>\<open>onComplete\<close>. The
  response handed to \<^verbatim>\<open>onComplete\<close> has \<^verbatim>\<open>tokens_generated\<close> equal to the number of
  \<^verbatim>\<open>onToken\<close> calls of the run, the completion-flagged value included, and \<^verbatim>\<open>text\<close>
  equal to the concatenation of the fragments of the values handed to them, in order;
  and every \<^verbatim>\<open>onToken\<close> call is made with the accumulated text and the count already
  extended by its own value. The fragment of a \<^verbatim>\<open>StreamToken\<close> is its \<^verbatim>\<open>token\<close>.
\<close>
theorem aggregate_result:
  assumes "\<not> fires_within (setTimeout timeout) (fetch_latency net)"
    and "fetch_result net = FetchResponds resp"
    and "ok resp" and "body resp = Some (chunk_reads lcs @ (l, Done) # rest)"
    and "stream_values dstep d0 parse (concat (map snd lcs)) = vs @ [v]"
    and "flagged v" and "\<forall>h. onToken opts h v = Returns" and "onComplete opts = Some f"
  shows "callbacks (calls (inferenceStream timeout dstep d0 parse opts data net)) =
           values_events opts (model_id data) [] [] 0 vs
           @ [OnToken v (concat (map fragment_text (vs @ [v]))) (length (vs @ [v])),
              OnComplete (aggregate (model_id data) (concat (map fragment_text (vs @ [v])))
                            (length (vs @ [v])))]
     \<and> observed (calls (inferenceStream timeout dstep d0 parse opts data net)) = vs @ [v]
     \<and> tokens_generated (aggregate (model_id data) (concat (map fragment_text (vs @ [v])))
                            (length (vs @ [v]))) =
         length (observed (calls (inferenceStream timeout dstep d0 parse opts data net)))
     \<and> response_text (aggregate (model_id data) (concat (map fragment_text (vs @ [v])))
                            (length (vs @ [v]))) =
         concat (map fragment_text
                   (observed (calls (inferenceStream timeout dstep d0 parse opts data net))))
     \<and> consistent [] 0 (calls (inferenceStream timeout dstep d0 parse opts data net))"
proof -
  let ?r = "inferenceStream timeout dstep d0 parse opts data net"
  have cb: "callbacks (calls ?r) =
      values_events opts (model_id data) [] [] 0 (vs @ [v])"
    using clean_run_callbacks [OF assms(1-4), of dstep d0 parse opts data] assms(5) by simp
  have cb2: "callbacks (calls ?r) =
           values_events opts (model_id data) [] [] 0 vs
           @ [OnToken v (concat (map fragment_text (vs @ [v]))) (length (vs @ [v])),
              OnComplete (aggregate (model_id data) (concat (map fragment_text (vs @ [v])))
                            (length (vs @ [v])))]"
    using assms(6-8) by (simp add: cb values_events_append value_events_def)
  have "observed (calls ?r) = observed (callbacks (calls ?r))"
    by (simp add: observed_callbacks)
  then have ob: "observed (calls ?r) = vs @ [v]"
    by (simp add: cb observed_values_events)
  have co: "consistent [] 0 (calls ?r)"
    by (rule inferenceStream_consistent)
  show ?thesis
    using cb2 ob co by (simp add: aggregate_def)
qed

text \<open>The statement above at a concrete input.\<close>
theorem aggregate_result_witness:
  "callbacks (calls (inferenceStream 100 ascii_step () demo_parse both_callbacks demo_request
       (ok_response (chunk_reads [(5, bytes_of (data_line payload_Hi @ data_line payload_bang))]
                     @ [(5, Done)])))) =
     values_events both_callbacks (model_id demo_request) [] [] 0 [tok_Hi]
     @ [OnToken tok_bang (concat (map fragment_text ([tok_Hi] @ [tok_bang])))
          (length ([tok_Hi] @ [tok_bang])),
        OnComplete (aggregate (model_id demo_request)
                      (concat (map fragment_text ([tok_Hi] @ [tok_bang])))
                      (length ([tok_Hi] @ [tok_bang])))]
   \<and> observed (calls (inferenceStream 100 ascii_step () demo_parse both_callbacks demo_request
       (ok_response (chunk_reads [(5, bytes_of (data_line payload_Hi @ data_line payload_bang))]
                     @ [(5, Done)])))) = [tok_Hi] @ [tok_bang]
   \<and> consistent [] 0
       (calls (inferenceStream 100 ascii_step () demo_parse both_callbacks demo_request
       (ok_response (chunk_reads [(5, bytes_of (data_line payload_Hi @ data_line payload_bang))]
                     @ [(5, Done)]))))
   \<and> concat (map fragment_text ([tok_Hi] @ [tok_bang])) = js ''Hi!''"
proof -
  let ?lcs = "[(5::nat, bytes_of (data_line payload_Hi @ data_line payload_bang))]"
  let ?resp = "\<lparr>status = 200, text_result = Inr [],
                body = Some (chunk_reads ?lcs @ [(5, Done)])\<rparr>"
  have h1: "\<not> fires_within (setTimeout 100)
              (fetch_latency (ok_response (chunk_reads ?lcs @ [(5, Done)])))"
    by (simp add: ok_response_def setTimeout_def fires_within_def)
  have h2: "fetch_result (ok_response (chunk_reads ?lcs @ [(5, Done)])) = FetchResponds ?resp"
    by (simp add: ok_response_def)
  have h3: "ok ?resp" by (simp add: ok_def)
  have h4: "body ?resp = Some (chunk_reads ?lcs @ (5, Done) # [])" by simp
  have h5: "stream_values ascii_step () demo_parse (concat (map snd ?lcs)) = [tok_Hi] @ [tok_bang]"
    by code_simp
  have h6: "flagged tok_bang" by code_simp
  have h7: "\<forall>h. onToken both_callbacks h tok_bang = Returns"
    and h8: "onComplete both_callbacks = Some (\<lambda>h res. Returns)"
    by (simp_all add: both_callbacks_def)
  have t: "concat (map fragment_text ([tok_Hi] @ [tok_bang])) = js ''Hi!''"
    by code_simp
  from aggregate_result
      [where lcs = ?lcs and l = 5 and rest = "[]" and dstep = ascii_step and ?d0.0 = "()"
         and parse = demo_parse and opts = both_callbacks and data = demo_request
         and vs = "[tok_Hi]" and v = tok_bang and timeout = 100
         and f = "\<lambda>h res. Returns",
       OF h1 h2 h3 h4 h5 h6 h7 h8] t
  show ?thesis by simp
qed

section \<open>Minimum context\<close>

text \<open>
  Claim C6. On a catalog whose context sizes are numbers that are not negative, and
  for every integer bound, \<^verbatim>\<open>findOne\<close> never returns an entry whose context size is
  below the bound, and an entry passes the minimum-context test exactly when its
  context size is at least the bound. The bound 0 is falsy, so the comparison is
  skipped for it; every such size is at least 0.
\<close>
theorem min_context_bound:
  assumes "list_all (\<lambda>m. is_size (context_size m)) (list_entries r)"
  shows "(findOne r options = Some model \<and> opt_minContext options = Some (Num c) \<longrightarrow>
            \<not> num_lt (context_size model) (Num c)
            \<and> num_ge (context_size model) (Num c))
       \<and> (is_size (context_size entry) \<longrightarrow>
            (matches (only_minContext (Num c)) entry \<longleftrightarrow>
               num_ge (context_size entry) (Num c)))"
proof (intro conjI impI)
  assume h: "findOne r options = Some model \<and> opt_minContext options = Some (Num c)"
  then have m: "matches options model" using findOne_matches by blast
  have "model \<in> set (list_entries r)" using h findOne_in_catalog by blast
  then have "is_size (context_size model)"
    using assms by (simp add: list_all_iff)
  then obtain x where x: "context_size model = Num x" "0 \<le> x"
    by (cases "context_size model") simp_all
  have "c = 0 \<or> \<not> x < c"
    using m h x by (auto simp: matches_def split: if_splits)
  then have "c \<le> x" using x(2) by auto
  then show "\<not> num_lt (context_size model) (Num c)"
    and "num_ge (context_size model) (Num c)"
    by (simp_all add: x)
next
  assume "is_size (context_size entry)"
  then obtain x where x: "context_size entry = Num x" "0 \<le> x"
    by (cases "context_size entry") simp_all
  then show "matches (only_minContext (Num c)) entry \<longleftrightarrow> num_ge (context_size entry) (Num c)"
    by (auto simp: matches_def only_minContext_def)
qed

text \<open>
  The statement above at concrete inputs: the bound 8192 selects the second entry of
  the catalog, the bound 0 the first.
\<close>
theorem min_context_bound_witness:
  "map_option entry_id (findOne demo_catalog (only_minContext (Num 8192))) = Some (js ''b'')
   \<and> num_ge (context_size (the (findOne demo_catalog (only_minContext (Num 8192))))) (Num 8192)
   \<and> matches (only_minContext (Num 8192))
        (the (findOne demo_catalog (only_minContext (Num 8192))))
   \<and> map_option entry_id (findOne demo_catalog (only_minContext (Num 0))) = Some (js ''a'')
   \<and> num_ge (context_size (the (findOne demo_catalog (only_minContext (Num 0))))) (Num 0)"
proof -
  have s: "list_all (\<lambda>m. is_size (context_size m)) (list_entries demo_catalog)"
    by code_simp
  have i: "map_option entry_id (findOne demo_catalog (only_minContext (Num 8192))) = Some (js ''b'')"
    by code_simp
  then have f: "findOne demo_catalog (only_minContext (Num 8192)) =
      Some (the (findOne demo_catalog (only_minContext (Num 8192))))"
    by (cases "findOne demo_catalog (only_minContext (Num 8192))") simp_all
  have z: "map_option entry_id (findOne demo_catalog (only_minContext (Num 0))) = Some (js ''a'')"
    by code_simp
  then have g: "findOne demo_catalog (only_minContext (Num 0)) =
      Some (the (findOne demo_catalog (only_minContext (Num 0))))"
    by (cases "findOne demo_catalog (only_minContext (Num 0))") simp_all
  have e: "is_size (context_size (the (findOne demo_catalog (only_minContext (Num 8192)))))"
    by code_simp
  have o: "opt_minContext (only_minContext c) = Some c" for c
    by (simp add: only_minContext_def)
  show ?thesis
    using i z f g e o
      min_context_bound [OF s, of "only_minContext (Num 8192)"
        "the (findOne demo_catalog (only_minContext (Num 8192)))" 8192
        "the (findOne demo_catalog (only_minContext (Num 8192)))"]
      min_context_bound [OF s, of "only_minContext (Num 0)"
        "the (findOne demo_catalog (only_minContext (Num 0)))" 0]
    by simp
qed

section \<open>Malformed records\<close>

text \<open>
  Claim C7, as the code has it. A data record whose payload makes \<^verbatim>\<open>JSON.parse\<close>
  raise, or parses to a value whose fragment cannot be read (\<^verbatim>\<open>null\<close>, or a
  \<^verbatim>\<open>token\<close> member that cannot be converted to a string), leaves the local variables
  as they are and adds one \<^verbatim>\<open>console.error\<close> entry to the trace. In a response read to its
  end that contains such a record, the record is logged, \<^verbatim>\<open>onError\<close> is not called, the
  promise is fulfilled, and the callbacks are those of the stream without that record:
  the records after it are decoded and delivered. Nothing checks that a parsed value is
  a \<^verbatim>\<open>StreamToken\<close>: every other value is handled as a token.
\<close>
theorem malformed_record_skipped:
  assumes "\<not> fires_within (setTimeout timeout) (fetch_latency net)"
    and "fetch_result net = FetchResponds resp"
    and "ok resp" and "body resp = Some (chunk_reads lcs @ (l, Done) # rest)"
    and "records (stream_text (dstep :: 'd decoder_step) d0 (concat (map snd lcs))) =
           before @ bad # after"
    and "line_payload bad = Some p"
    and "parse p = None \<or> (\<exists>v. parse p = Some v \<and> fragment v = None)"
  shows "process_line parse opts (model_id data) (st :: 'd locals) bad =
           st\<lparr>trace := trace st @ [ConsoleError p]\<rparr>
     \<and> ConsoleError p \<in> set (calls (inferenceStream timeout dstep d0 parse opts data net))
     \<and> \<not> error_fired (calls (inferenceStream timeout dstep d0 parse opts data net))
     \<and> settled (inferenceStream timeout dstep d0 parse opts data net) = Fulfilled
     \<and> callbacks (calls (inferenceStream timeout dstep d0 parse opts data net)) =
         values_events opts (model_id data) [] [] 0
           (List.map_filter (line_value parse) (before @ after))"
proof -
  let ?r = "inferenceStream timeout dstep d0 parse opts data net"
  let ?m = "model_id data"
  have line: "process_line parse opts ?m s bad = s\<lparr>trace := trace s @ [ConsoleError p]\<rparr>"
    for s :: "'d locals"
    using assms(6,7)
    by (auto simp: process_line_cases emit_def handle_token_def)
  have r: "?r = \<lparr>calls = trace (process_lines parse opts ?m (init_locals d0)
                (before @ bad # after)), settled = Fulfilled\<rparr>"
    using inferenceStream_clean [OF assms(1-4), of dstep d0 parse opts data] assms(5)
    by simp
  define s1 where "s1 = process_lines parse opts ?m (init_locals d0) before"
  have step: "process_lines parse opts ?m (init_locals d0) (before @ bad # after) =
      process_lines parse opts ?m (s1\<lparr>trace := trace s1 @ [ConsoleError p]\<rparr>) after"
    using line [of s1] by (simp add: process_lines_def s1_def)
  obtain ext where "trace (process_lines parse opts ?m
        (s1\<lparr>trace := trace s1 @ [ConsoleError p]\<rparr>) after) =
      (trace s1 @ [ConsoleError p]) @ ext"
    using process_lines_trace_grows
      [of parse opts ?m "s1\<lparr>trace := trace s1 @ [ConsoleError p]\<rparr>" after]
    by auto
  then have logged: "ConsoleError p \<in> set (calls ?r)"
    by (simp add: r step)
  have tok: "line_value parse bad = None"
    using assms(6,7) by (auto simp: line_value_def)
  have cb: "callbacks (calls ?r) =
      values_events opts ?m [] [] 0 (List.map_filter (line_value parse) (before @ after))"
    using process_lines_effect [of parse opts ?m "init_locals d0" "before @ bad # after"]
    by (simp add: r map_filter_append map_filter_simps tok)
       (simp add: init_locals_def callbacks_def)
  have "error_fired (calls ?r) = error_fired (callbacks (calls ?r))"
    by (simp add: error_fired_callbacks)
  then have noerr: "\<not> error_fired (calls ?r)"
    by (simp add: cb error_fired_values_events)
  show ?thesis
    using line [of st] logged noerr cb by (simp add: r)
qed

text \<open>The statement above at a concrete input.\<close>
theorem malformed_record_skipped_witness:
  "ConsoleError (js payload_bad) \<in> set (calls
       (inferenceStream 100 ascii_step () demo_parse both_callbacks demo_request
       (ok_response (chunk_reads [(5, bytes_of (data_line payload_Hi @ data_line payload_bad
                                                @ data_line payload_bang))] @ [(5, Done)]))))
   \<and> \<not> error_fired (calls
       (inferenceStream 100 ascii_step () demo_parse both_callbacks demo_request
       (ok_response (chunk_reads [(5, bytes_of (data_line payload_Hi @ data_line payload_bad
                                                @ data_line payload_bang))] @ [(5, Done)]))))
   \<and> settled
       (inferenceStream 100 ascii_step () demo_parse both_callbacks demo_request
       (ok_response (chunk_reads [(5, bytes_of (data_line payload_Hi @ data_line payload_bad
                                                @ data_line payload_bang))] @ [(5, Done)]))) =
       Fulfilled
   \<and> callbacks (calls
       (inferenceStream 100 ascii_step () demo_parse both_callbacks demo_request
       (ok_response (chunk_reads [(5, bytes_of (data_line payload_Hi @ data_line payload_bad
                                                @ data_line payload_bang))] @ [(5, Done)])))) =
       values_events both_callbacks (model_id demo_request) [] [] 0 [tok_Hi, tok_bang]"
proof -
  let ?lcs = "[(5::nat, bytes_of (data_line payload_Hi @ data_line payload_bad
                             @ data_line payload_bang))]"
  let ?resp = "\<lparr>status = 200, text_result = Inr [],
                body = Some (chunk_reads ?lcs @ [(5, Done)])\<rparr>"
  have h1: "\<not> fires_within (setTimeout 100)
              (fetch_latency (ok_response (chunk_reads ?lcs @ [(5, Done)])))"
    by (simp add: ok_response_def setTimeout_def fires_within_def)
  have h2: "fetch_result (ok_response (chunk_reads ?lcs @ [(5, Done)])) = FetchResponds ?resp"
    by (simp add: ok_response_def)
  have h3: "ok ?resp" by (simp add: ok_def)
  have h4: "body ?resp = Some (chunk_reads ?lcs @ (5, Done) # [])" by simp
  have h5: "records (stream_text ascii_step () (concat (map snd ?lcs))) =
      [js (data_record payload_Hi)] @ js (data_record payload_bad) # [js (data_record payload_bang)]"
    by code_simp
  have h6: "line_payload (js (data_record payload_bad)) = Some (js payload_bad)"
    by code_simp
  have "demo_parse (js payload_bad) = None"
    by code_simp
  then have h7: "demo_parse (js payload_bad) = None
      \<or> (\<exists>v. demo_parse (js payload_bad) = Some v \<and> fragment v = None)"
    by simp
  have t: "List.map_filter (line_value demo_parse)
       ([js (data_record payload_Hi)] @ [js (data_record payload_bang)]) = [tok_Hi, tok_bang]"
    by code_simp
  from malformed_record_skipped
      [where lcs = ?lcs and l = 5 and rest = "[]" and before = "[js (data_record payload_Hi)]"
         and bad = "js (data_record payload_bad)" and after = "[js (data_record payload_bang)]"
         and opts = both_callbacks and data = demo_request and parse = demo_parse
         and p = "js payload_bad" and dstep = ascii_step and ?d0.0 = "()" and timeout = 100,
       OF h1 h2 h3 h4 h5 h6 h7] t
  show ?thesis by simp
qed

text \<open>
  The payload \<^verbatim>\<open>42\<close> is valid JSON and is not a \<^verbatim>\<open>StreamToken\<close>. The record is not
  logged: the accumulated text grows by \<^verbatim>\<open>undefined\<close>, the count by one, and
  \<^verbatim>\<open>onToken\<close> is called with the number.
\<close>
theorem non_token_payload_delivered:
  "as_token (JNum 42) = None
   \<and> inferenceStream 100 ascii_step () demo_parse both_callbacks demo_request
     \<lparr>fetch_latency = 10,
      fetch_result = FetchResponds
        \<lparr>status = 200, text_result = Inr [],
         body = Some [(5, Chunk (bytes_of (data_line payload_42 @ data_line payload_bang))),
                      (5, Done)]\<rparr>\<rparr> =
   \<lparr>calls = [OnToken (JNum 42) (js ''undefined'') 1,
             OnToken tok_bang (js ''undefined!'') 2,
             OnComplete \<lparr>response_model_id = js ''mistral'',
                         response_text = js ''undefined!'',
                         tokens_generated = 2, finish_reason = js ''stop''\<rparr>],
    settled = Fulfilled\<rparr>"
  by code_simp

section \<open>Routing\<close>

text \<open>
  Claim C8, as the code has it. A non-empty explicit model identifier that is absent
  from the catalog makes the handler throw without any inference call; so does a request
  with no (or an empty) identifier when no entry satisfies the criteria; and a non-empty
  explicit identifier found in the catalog is used whatever the criteria say. An empty
  identifier is falsy and is treated as absent.
\<close>
theorem router_fails_fast:
  assumes "options = (case req_options request of None \<Rightarrow> no_options | Some v \<Rightarrow> v)"
  shows "(req_model options = Some m \<and> m \<noteq> [] \<and> get_entry r m = None \<longrightarrow>
            engine_calls (router_chat r engine request) = []
            \<and> outcome (router_chat r engine request) =
                Inl (ErrorObj (new_Error (js ''Model '' @ [apostrophe] @ m @ [apostrophe]
                                           @ js '' not found in registry''))))
     \<and> ((req_model options = None \<or> req_model options = Some [])
          \<and> findOne r (chat_criteria options) = None \<longrightarrow>
            engine_calls (router_chat r engine request) = []
            \<and> outcome (router_chat r engine request) =
                Inl (ErrorObj (new_Error
                  (js ''No suitable model found for the given constraints''))))
     \<and> (req_model options = Some m \<and> m \<noteq> [] \<and> get_entry r m = Some model \<longrightarrow>
            router_chat r engine request = call_inference engine request options model)"
  using assms by (auto simp: router_chat_def Let_def)

text \<open>The statement above at a concrete input.\<close>
theorem router_fails_fast_witness:
  "engine_calls (router_chat demo_catalog demo_engine (chat_with (Some (js ''zz'')))) = []
   \<and> outcome (router_chat demo_catalog demo_engine (chat_with (Some (js ''zz'')))) =
       Inl (ErrorObj (new_Error (js ''Model '' @ [apostrophe] @ js ''zz'' @ [apostrophe]
                                  @ js '' not found in registry'')))
   \<and> engine_calls (router_chat vision_catalog demo_engine (chat_with None)) = []
   \<and> outcome (router_chat vision_catalog demo_engine (chat_with None)) =
       Inl (ErrorObj (new_Error (js ''No suitable model found for the given constraints'')))
   \<and> router_chat mixed_catalog demo_engine (chat_with (Some (js ''v''))) =
         call_inference demo_engine (chat_with (Some (js ''v'')))
           (no_options\<lparr>req_model := Some (js ''v'')\<rparr>) (the (get_entry mixed_catalog (js ''v'')))
   \<and> map_option capabilities (get_entry mixed_catalog (js ''v'')) = Some [js ''vision'']"
proof -
  have o: "no_options\<lparr>req_model := m\<rparr> =
      (case req_options (chat_with m) of None \<Rightarrow> no_options | Some v \<Rightarrow> v)" for m
    by (simp add: chat_with_def)
  have a1: "req_model (no_options\<lparr>req_model := Some (js ''zz'')\<rparr>) = Some (js ''zz'')
      \<and> js ''zz'' \<noteq> [] \<and> get_entry demo_catalog (js ''zz'') = None"
    by code_simp
  have a2: "(req_model (no_options\<lparr>req_model := None\<rparr>) = None
        \<or> req_model (no_options\<lparr>req_model := None\<rparr>) = Some [])
      \<and> findOne vision_catalog (chat_criteria (no_options\<lparr>req_model := None\<rparr>)) = None"
    by code_simp
  have a3: "req_model (no_options\<lparr>req_model := Some (js ''v'')\<rparr>) = Some (js ''v'')
      \<and> js ''v'' \<noteq> []"
    by code_simp
  have a4: "map_option capabilities (get_entry mixed_catalog (js ''v'')) = Some [js ''vision'']"
    by code_simp
  then have a5: "get_entry mixed_catalog (js ''v'') = Some (the (get_entry mixed_catalog (js ''v'')))"
    by (cases "get_entry mixed_catalog (js ''v'')") simp_all
  note t1 = router_fails_fast [OF o [of "Some (js ''zz'')"], of "js ''zz''" demo_catalog
      demo_engine]
  note t2 = router_fails_fast [OF o [of None], of _ vision_catalog demo_engine]
  note t3 = router_fails_fast [OF o [of "Some (js ''v'')"], of "js ''v''" mixed_catalog
      demo_engine "the (get_entry mixed_catalog (js ''v''))"]
  show ?thesis
    using t1 t2 t3 a1 a2 a3 a4 a5 by blast
qed

text \<open>
  The empty identifier is not in the catalog, yet the handler does not throw: it selects
  by criteria and issues an inference call for model \<open>a\<close>.
\<close>
theorem empty_identifier_not_explicit:
  "get_entry demo_catalog [] = None
   \<and> router_chat demo_catalog demo_engine (chat_with (Some [])) =
       \<lparr>engine_calls = [\<lparr>model_id = js ''a'', prompt = js ''Hello'',
                          max_tokens = None, temperature = None\<rparr>],
        outcome = Inr \<lparr>response_model_id = js ''a'', response_text = js ''Hello!'',
                       tokens_generated = 2, finish_reason = js ''stop''\<rparr>\<rparr>"
  by code_simp

section \<open>Fatal failures\<close>

text \<open>
  Claim C9, evaluated on a response with status 500. The error built from the response
  is passed to \<^verbatim>\<open>onError\<close> in the \<^verbatim>\<open>try\<close> block and thrown; the \<^verbatim>\<open>catch\<close> block
  of the same function catches it, passes it to \<^verbatim>\<open>onError\<close> again and rethrows it. The
  caller sees the failure three times: two \<^verbatim>\<open>onError\<close> calls and the rejection.
\<close>
theorem non_2xx_reported_twice:
  "inferenceStream 100 ascii_step () demo_parse both_callbacks demo_request
     \<lparr>fetch_latency = 10,
      fetch_result = FetchResponds
        \<lparr>status = 500, text_result = Inr (js ''engine failure''), body = None\<rparr>\<rparr> =
   \<lparr>calls = [OnError (JsError (js ''OpenLLMError'') (js ''engine failure'')
                        (Some (js ''API_ERROR'')) (Some 500)),
             OnError (JsError (js ''OpenLLMError'') (js ''engine failure'')
                        (Some (js ''API_ERROR'')) (Some 500))],
    settled = Rejected (ErrorObj (JsError (js ''OpenLLMError'') (js ''engine failure'')
                        (Some (js ''API_ERROR'')) (Some 500)))\<rparr>"
  by code_simp

section \<open>Implicit routing\<close>

text \<open>
  Claim C10. When the request names no model (or an empty one), the handler looks the
  catalog up with the capability \<^verbatim>\<open>chat\<close> added to the caller's latency, backend and
  minimum-context constraints, and every inference call it issues is for a catalog entry
  that has the capability \<^verbatim>\<open>chat\<close>.
\<close>
theorem implicit_routing_requires_chat:
  assumes "options = (case req_options request of None \<Rightarrow> no_options | Some v \<Rightarrow> v)"
    and "req_model options = None \<or> req_model options = Some []"
  shows "router_chat r engine request =
           (case findOne r \<lparr>opt_capability = Some (js ''chat''),
                             opt_latency = req_latency options,
                             opt_inference = req_inference options,
                             opt_minContext = req_minContext options,
                             opt_loaded = None\<rparr> of
              None \<Rightarrow> \<lparr>engine_calls = [],
                        outcome = Inl (ErrorObj (new_Error
                          (js ''No suitable model found for the given constraints'')))\<rparr>
            | Some model \<Rightarrow> call_inference engine request options model)
     \<and> (\<forall>req. req \<in> set (engine_calls (router_chat r engine request)) \<longrightarrow>
          (\<exists>model. model \<in> set (list_entries r) \<and> model_id req = entry_id model
                  \<and> js ''chat'' \<in> set (capabilities model)))"
proof -
  have sel: "router_chat r engine request =
           (case findOne r (chat_criteria options) of
              None \<Rightarrow> \<lparr>engine_calls = [],
                        outcome = Inl (ErrorObj (new_Error
                          (js ''No suitable model found for the given constraints'')))\<rparr>
            | Some model \<Rightarrow> call_inference engine request options model)"
    using assms by (auto simp: router_chat_def Let_def)
  have chat: "js ''chat'' \<in> set (capabilities model)"
    if "findOne r (chat_criteria options) = Some model" for model
  proof -
    have "matches (chat_criteria options) model" using that by (rule findOne_matches)
    then show ?thesis
      using js_chat_nonempty by (auto simp: matches_def chat_criteria_def split: if_splits)
  qed
  have "\<exists>model. model \<in> set (list_entries r) \<and> model_id req = entry_id model
                  \<and> js ''chat'' \<in> set (capabilities model)"
    if "req \<in> set (engine_calls (router_chat r engine request))" for req
  proof (cases "findOne r (chat_criteria options)")
    case None
    then show ?thesis using that by (simp add: sel)
  next
    case (Some model)
    then have "model_id req = entry_id model"
      using that by (simp add: sel call_inference_def Let_def)
    then show ?thesis using chat [OF Some] findOne_in_catalog [OF Some] by blast
  qed
  then show ?thesis using sel by (simp add: chat_criteria_def)
qed

text \<open>The statement above at a concrete input.\<close>
theorem implicit_routing_requires_chat_witness:
  "engine_calls (router_chat mixed_catalog demo_engine (chat_with None)) =
     [\<lparr>model_id = js ''b'', prompt = js ''Hello'', max_tokens = None, temperature = None\<rparr>]
   \<and> (\<exists>model. model \<in> set (list_entries mixed_catalog) \<and> js ''b'' = entry_id model
                \<and> js ''chat'' \<in> set (capabilities model))"
proof -
  have o: "no_options\<lparr>req_model := None\<rparr> =
      (case req_options (chat_with None) of None \<Rightarrow> no_options | Some v \<Rightarrow> v)"
    by (simp add: chat_with_def)
  have m: "req_model (no_options\<lparr>req_model := None\<rparr>) = None
      \<or> req_model (no_options\<lparr>req_model := None\<rparr>) = Some []"
    by simp
  have c: "engine_calls (router_chat mixed_catalog demo_engine (chat_with None)) =
     [\<lparr>model_id = js ''b'', prompt = js ''Hello'', max_tokens = None, temperature = None\<rparr>]"
    by code_simp
  from implicit_routing_requires_chat [OF o m, of mixed_catalog demo_engine] c
  show ?thesis by simp
qed

end
